theory Spec2Isabelle
  imports Main "HOL-Library.AList"
begin

section \<open>The wiki upload session of etl/wiki.py\<close>

text \<open>
  The module holds one class, \<open>WikiSession\<close>, whose methods talk to a MediaWiki site
  through \<open>mwclient\<close>, read attachment files and print to the operator.  None of this
  is pure, so the embedding passes a \<open>world\<close> through every method: the remote page
  store, the local files, the calls issued so far (in order), the lines printed so far,
  and a fault schedule that says which calls fail.  An exception is a value \<open>Inl e\<close>
  returned together with the world reached when it was raised.
\<close>

subsection \<open>Data handed in by the caller\<close>

text \<open>
  A Python value that is either a string or \<open>None\<close>.
\<close>

type_synonym pyval = "string option"

text \<open>
  Modelled from the spec: the dataset classes of \<open>etl.competition\<close> (Competition,
  Proposal, Toc, Attachment) are used by this module but defined elsewhere.  Only the
  members that \<open>wiki.py\<close> reads are kept, each as a field holding what the member
  returns: \<open>proposal.key()\<close>, \<open>proposal.cell(name)\<close> (a value or \<open>None\<close>),
  \<open>toc.name\<close>, \<open>toc.raw()\<close>, \<open>toc.template_file()\<close>,
  \<open>json.dumps(toc.grouped_data())\<close>, the four attributes of an attachment,
  \<open>comp.key_column_name\<close>, \<open>comp.to_csv(io.StringIO()).getvalue()\<close>, \<open>comp.tocs\<close>
  and \<open>comp.ordered_proposals()\<close>.  All of them are taken to return without raising.
  A competition is called \<open>cmp\<close> below, since \<open>comp\<close> is function composition in HOL;
  a TOC's \<open>name\<close> is \<open>toc_name\<close>, and an attachment's \<open>file\<close>, \<open>path\<close>, \<open>key\<close> and
  \<open>column_name\<close> carry the prefix \<open>att_\<close>.
\<close>

record proposal =
  key :: string
  cells :: "string \<rightharpoonup> string"

definition cell :: "proposal \<Rightarrow> string \<Rightarrow> pyval" where
  "cell p column_name = cells p column_name"

record toc =
  toc_name :: string
  raw :: bool
  template_file :: string
  grouped_data_json :: string

record attachment =
  att_file :: string
  att_path :: string
  att_key :: string
  att_column_name :: string

record competition =
  key_column_name :: string
  to_csv :: string
  tocs :: "toc list"
  ordered_proposals :: "proposal list"

text \<open>
  The two attributes of a \<open>WikiSession\<close> besides the site handle.  \<open>__init__\<close> sets
  \<open>csv_only\<close> to \<open>False\<close>; callers may assign it afterwards.
\<close>

record session =
  competition_name :: string
  csv_only :: bool

subsection \<open>The world outside the session\<close>

datatype error = PreconditionError | TransportError | FileError

text \<open>
  Every interaction with the outside is one \<open>call\<close>:
  \<open>site.raw_call(script, data, files)\<close>, \<open>site.pages[title]\<close> (which fetches the
  page's info, so that \<open>p.exists\<close> can be read), \<open>p.save(body)\<close>,
  \<open>site.allpages()\<close> and \<open>open(path, "rb")\<close> with the read of its contents.
  The \<open>data\<close> dictionary of a raw call maps names to Python values, \<open>None\<close> included.
\<close>

datatype call =
    RawCall string "(string \<times> pyval) list" "(string \<times> string) list"
  | PageGet string
  | PageSave string string
  | AllPages
  | FileOpen string

record world =
  pages :: "(string \<times> string) list"
  files :: "string \<rightharpoonup> string"
  faults :: "nat \<Rightarrow> bool"
  calls :: "call list"
  out :: "string list"

text \<open>
  \<open>pages\<close> lists the remote pages (title, content) in the order \<open>allpages()\<close> yields
  them; \<open>faults w n\<close> says that the call issued when \<open>n\<close> calls have been issued
  before it fails in transport.  A failed call is still recorded in \<open>calls\<close>, and a
  failed save leaves the page store as it was.
\<close>

fun and_then :: "(error + 'a) \<times> world \<Rightarrow> ('a \<Rightarrow> world \<Rightarrow> (error + 'b) \<times> world)
    \<Rightarrow> (error + 'b) \<times> world" where
  "and_then (Inl e, w) f = (Inl e, w)"
| "and_then (Inr x, w) f = f x w"

definition raw_call :: "string \<Rightarrow> (string \<times> pyval) list \<Rightarrow> (string \<times> string) list
    \<Rightarrow> world \<Rightarrow> (error + unit) \<times> world" where
  "raw_call script data fs w =
     (let w' = w\<lparr>calls := calls w @ [RawCall script data fs]\<rparr>
      in if faults w (length (calls w)) then (Inl TransportError, w') else (Inr (), w'))"

definition page_exists :: "string \<Rightarrow> world \<Rightarrow> bool" where
  "page_exists title w = (title \<in> fst ` set (pages w))"

definition site_page :: "string \<Rightarrow> world \<Rightarrow> (error + bool) \<times> world" where
  "site_page title w =
     (let w' = w\<lparr>calls := calls w @ [PageGet title]\<rparr>
      in if faults w (length (calls w)) then (Inl TransportError, w')
         else (Inr (page_exists title w), w'))"

definition page_save :: "string \<Rightarrow> string \<Rightarrow> world \<Rightarrow> (error + unit) \<times> world" where
  "page_save title body w =
     (let w' = w\<lparr>calls := calls w @ [PageSave title body]\<rparr>
      in if faults w (length (calls w)) then (Inl TransportError, w')
         else (Inr (), w'\<lparr>pages := AList.update title body (pages w)\<rparr>))"

definition allpages :: "world \<Rightarrow> (error + string list) \<times> world" where
  "allpages w =
     (let w' = w\<lparr>calls := calls w @ [AllPages]\<rparr>
      in if faults w (length (calls w)) then (Inl TransportError, w')
         else (Inr (map fst (pages w)), w'))"

definition open_read :: "string \<Rightarrow> world \<Rightarrow> (error + string) \<times> world" where
  "open_read p w =
     (let w' = w\<lparr>calls := calls w @ [FileOpen p]\<rparr>
      in case files w p of None \<Rightarrow> (Inl FileError, w') | Some bytes \<Rightarrow> (Inr bytes, w'))"

definition print_line :: "string \<Rightarrow> world \<Rightarrow> world" where
  "print_line l w = w\<lparr>out := out w @ [l]\<rparr>"

text \<open>The calls issued between an earlier world and a later one.\<close>

definition issued :: "world \<Rightarrow> world \<Rightarrow> call list" where
  "issued w w' = drop (length (calls w)) (calls w')"

fun is_attachment_upload :: "call \<Rightarrow> bool" where
  "is_attachment_upload (RawCall script data fs) =
     (map_of data ''action'' = Some (Some ''torquedataconnectuploadattachment''))"
| "is_attachment_upload c = False"

fun is_file_open :: "call \<Rightarrow> bool" where
  "is_file_open (FileOpen p) = True"
| "is_file_open c = False"

fun call_data :: "call \<Rightarrow> (string \<times> pyval) list" where
  "call_data (RawCall script data fs) = data"
| "call_data c = []"

fun page_gets :: "call list \<Rightarrow> string list" where
  "page_gets [] = []"
| "page_gets (PageGet t # cs) = t # page_gets cs"
| "page_gets (c # cs) = page_gets cs"

subsection \<open>The methods of WikiSession\<close>

definition generated_notice :: string where
  "generated_notice = ''<!-- This page is generated by the ETL pipelines in the https://github.com/OpenTechStrategies/torque-sites/. It is rendered based on the template in the Torque Configuration (TorqueConfig:MainConfig), and the '#tdcrender' line below is correct. Normally, this page should not be edited, as any edits you make here will not be stored in the Torque database and thus would be lost the next time the ETL process is run.-->''"

definition toc_page_body :: "session \<Rightarrow> toc \<Rightarrow> string" where
  "toc_page_body s t =
     generated_notice @ [CHR 0x0A] @ ''{{ #tdcrender:'' @ competition_name s @ ''/toc/''
       @ toc_name t @ ''.mwiki }}''"

definition proposal_page_body :: "session \<Rightarrow> proposal \<Rightarrow> string" where
  "proposal_page_body s p =
     generated_notice @ [CHR 0x0A] @ ''{{ #tdcrender:'' @ competition_name s @ ''/id/''
       @ key p @ ''.mwiki }}''"

definition toc_call :: "session \<Rightarrow> toc \<Rightarrow> call" where
  "toc_call s t =
     RawCall ''api''
       [(''action'', Some ''torquedataconnectuploadtoc''),
        (''format'', Some ''json''),
        (''sheet_name'', Some (competition_name s)),
        (''toc_name'', Some (toc_name t)),
        (''raw_toc'', if raw t then Some ''true'' else None)]
       [(''template'', template_file t), (''json'', grouped_data_json t)]"

definition upload_toc :: "session \<Rightarrow> toc \<Rightarrow> world \<Rightarrow> (error + unit) \<times> world" where
  "upload_toc s t w =
     and_then
       (raw_call ''api''
          [(''action'', Some ''torquedataconnectuploadtoc''),
           (''format'', Some ''json''),
           (''sheet_name'', Some (competition_name s)),
           (''toc_name'', Some (toc_name t)),
           (''raw_toc'', if raw t then Some ''true'' else None)]
          [(''template'', template_file t), (''json'', grouped_data_json t)] w)
       (\<lambda>_ w1. and_then (site_page (toc_name t) w1)
          (\<lambda>p_exists w2.
             if \<not> p_exists then page_save (toc_name t) (toc_page_body s t) w2
             else (Inr (), w2)))"

definition create_page :: "string \<Rightarrow> string \<Rightarrow> bool \<Rightarrow> world \<Rightarrow> world" where
  "create_page page_title body create_if_exists w =
     (if page_title = [] then w
      else
        (case site_page page_title w of
           (Inl e, w1) \<Rightarrow> print_line (page_title @ '' failed to save'') w1
         | (Inr p_exists, w1) \<Rightarrow>
             if \<not> p_exists \<or> create_if_exists then
               (case page_save page_title body w1 of
                  (Inl e, w2) \<Rightarrow> print_line (page_title @ '' failed to save'') w2
                | (Inr _, w2) \<Rightarrow> w2)
             else w1))"

text \<open>
  \<open>create_pages\<close> loops over \<open>comp.ordered_proposals()\<close>; the title column's name
  (\<open>competition.MediaWikiTitleAdder.title_column_name\<close>, a constant of the absent
  module) is the parameter \<open>title_column\<close>.
\<close>

fun create_pages :: "string \<Rightarrow> session \<Rightarrow> proposal list \<Rightarrow> world \<Rightarrow> (error + unit) \<times> world" where
  "create_pages title_column s [] w = (Inr (), w)"
| "create_pages title_column s (p # ps) w =
     (case cell p title_column of
        None \<Rightarrow> (Inl PreconditionError, w)
      | Some page_title \<Rightarrow>
          create_pages title_column s ps
            (create_page page_title (proposal_page_body s p) False w))"

definition audit_header :: string where
  "audit_header = ''The following pages are in the wiki, but not added via the etl pipeline''"

fun print_suspicious :: "pyval list \<Rightarrow> string list \<Rightarrow> world \<Rightarrow> world" where
  "print_suspicious added_pages [] w = w"
| "print_suspicious added_pages (page_title # rest) w =
     print_suspicious added_pages rest
       (if Some page_title \<notin> set added_pages then print_line page_title w else w)"

definition sanity_check_wiki :: "string \<Rightarrow> competition \<Rightarrow> world \<Rightarrow> (error + unit) \<times> world" where
  "sanity_check_wiki title_column cmp w =
     (let added_pages = map (\<lambda>p. cell p title_column) (ordered_proposals cmp)
      in and_then (allpages w)
           (\<lambda>all_pages w1.
              (Inr (), print_suspicious added_pages all_pages (print_line audit_header w1))))"

fun upload_tocs :: "session \<Rightarrow> toc list \<Rightarrow> world \<Rightarrow> (error + unit) \<times> world" where
  "upload_tocs s [] w = (Inr (), w)"
| "upload_tocs s (t # ts) w = and_then (upload_toc s t w) (\<lambda>_ w1. upload_tocs s ts w1)"

definition sheet_call :: "session \<Rightarrow> competition \<Rightarrow> call" where
  "sheet_call s cmp =
     RawCall ''api''
       [(''action'', Some ''torquedataconnectuploadsheet''),
        (''format'', Some ''json''),
        (''object_name'', Some ''proposal''),
        (''sheet_name'', Some (competition_name s)),
        (''key_column'', Some (key_column_name cmp))]
       [(''data_file'', to_csv cmp)]"

definition upload_sheet :: "string \<Rightarrow> session \<Rightarrow> competition \<Rightarrow> world \<Rightarrow> (error + unit) \<times> world" where
  "upload_sheet title_column s cmp w =
     and_then
       (raw_call ''api''
          [(''action'', Some ''torquedataconnectuploadsheet''),
           (''format'', Some ''json''),
           (''object_name'', Some ''proposal''),
           (''sheet_name'', Some (competition_name s)),
           (''key_column'', Some (key_column_name cmp))]
          [(''data_file'', to_csv cmp)] w)
       (\<lambda>_ w1. and_then (upload_tocs s (tocs cmp) w1)
          (\<lambda>_ w2. and_then
             (if \<not> csv_only s then create_pages title_column s (ordered_proposals cmp) w2
              else (Inr (), w2))
             (\<lambda>_ w3. sanity_check_wiki title_column cmp w3)))"

definition attachment_call :: "session \<Rightarrow> attachment \<Rightarrow> string \<Rightarrow> call" where
  "attachment_call s a bytes =
     RawCall ''api''
       [(''action'', Some ''torquedataconnectuploadattachment''),
        (''format'', Some ''json''),
        (''sheet_name'', Some (competition_name s)),
        (''object_id'', Some (att_key a)),
        (''permissions_column'', Some (att_column_name a)),
        (''attachment_name'', Some (att_file a))]
       [(''attachment'', bytes)]"

text \<open>The body of the loop of \<open>upload_attachments\<close>, for one attachment.\<close>

definition upload_attachment :: "session \<Rightarrow> attachment \<Rightarrow> world \<Rightarrow> (error + unit) \<times> world" where
  "upload_attachment s a w =
     and_then (open_read (att_path a) (print_line (''Uploading '' @ att_file a) w))
       (\<lambda>bytes w1.
          raw_call ''api''
            [(''action'', Some ''torquedataconnectuploadattachment''),
             (''format'', Some ''json''),
             (''sheet_name'', Some (competition_name s)),
             (''object_id'', Some (att_key a)),
             (''permissions_column'', Some (att_column_name a)),
             (''attachment_name'', Some (att_file a))]
            [(''attachment'', bytes)] w1)"

fun upload_each :: "session \<Rightarrow> attachment list \<Rightarrow> world \<Rightarrow> (error + unit) \<times> world" where
  "upload_each s [] w = (Inr (), w)"
| "upload_each s (a # as) w = and_then (upload_attachment s a w) (\<lambda>_ w1. upload_each s as w1)"

definition upload_attachments :: "session \<Rightarrow> attachment list \<Rightarrow> world \<Rightarrow> (error + unit) \<times> world" where
  "upload_attachments s attachments w =
     (if csv_only s then (Inr (), w) else upload_each s attachments w)"

text \<open>
  Modelled from the spec: the caller of the session is not part of this module.  Section
  2 of the specification gives the order of a full run: "publish sheet", then "publish
  attachments" as a separate batch.  An exception of the first call ends the run.  Both
  calls are the methods above, unchanged; only their order is taken from the specification.
\<close>

definition full_run :: "string \<Rightarrow> session \<Rightarrow> competition \<Rightarrow> attachment list \<Rightarrow> world
    \<Rightarrow> (error + unit) \<times> world" where
  "full_run title_column s cmp attachments w =
     and_then (upload_sheet title_column s cmp w) (\<lambda>_ w1. upload_attachments s attachments w1)"

subsection \<open>Reading the calls of a run\<close>

text \<open>
  A page fetch or save that belongs to the TOC publisher: the page is the display page of
  one of the dataset's TOCs, and a save writes that TOC's generated body.  Every other
  kind of call passes.
\<close>

fun toc_page_call :: "session \<Rightarrow> competition \<Rightarrow> call \<Rightarrow> bool" where
  "toc_page_call s cmp (PageGet title) = (title \<in> set (map toc_name (tocs cmp)))"
| "toc_page_call s cmp (PageSave title body) =
     ((title, body) \<in> set (map (\<lambda>t. (toc_name t, toc_page_body s t)) (tocs cmp)))"
| "toc_page_call s cmp c = True"

text \<open>
  The calls one attachment gives rise to: the file is opened, and when that succeeds its
  bytes are sent.
\<close>

definition attachment_calls :: "session \<Rightarrow> world \<Rightarrow> attachment \<Rightarrow> call list" where
  "attachment_calls s w a =
     (case files w (att_path a) of
        None \<Rightarrow> [FileOpen (att_path a)]
      | Some bytes \<Rightarrow> [FileOpen (att_path a), attachment_call s a bytes])"

text \<open>
  What the transport sends for a raw call.  \<open>raw_call\<close> hands the \<open>data\<close> dictionary
  to the HTTP client, which encodes one form field for every entry whose value is not
  \<open>None\<close> and leaves the others out: binding a name to \<open>None\<close> is how the caller omits
  a field.  This is also how section 6 of the specification describes the upload calls
  (the raw flag is either present with the value "true", or absent).
\<close>

definition request_fields :: "(string \<times> pyval) list \<Rightarrow> (string \<times> string) list" where
  "request_fields data = List.map_filter (\<lambda>(name, v). map_option (Pair name) v) data"

fun is_raw_call :: "call \<Rightarrow> bool" where
  "is_raw_call (RawCall script data fs) = True"
| "is_raw_call c = False"

text \<open>The titles the records carry, in dataset order (records without one left out).\<close>

definition record_titles :: "string \<Rightarrow> proposal list \<Rightarrow> string list" where
  "record_titles title_column ps = List.map_filter (\<lambda>p. cell p title_column) ps"

subsection \<open>A small dataset to run the methods on\<close>

definition ex_title_column :: string where
  "ex_title_column = ''MediaWiki Title''"

definition ex_session :: session where
  "ex_session = \<lparr>competition_name = ''C'', csv_only = False\<rparr>"

definition ex_session_csv :: session where
  "ex_session_csv = \<lparr>competition_name = ''C'', csv_only = True\<rparr>"

definition ex_world :: world where
  "ex_world = \<lparr>pages = [], files = [''/tmp/doc.pdf'' \<mapsto> ''PDF''], faults = (\<lambda>n. False),
     calls = [], out = []\<rparr>"

definition ex_toc :: toc where
  "ex_toc = \<lparr>toc_name = ''Regions'', raw = False, template_file = ''tpl'',
     grouped_data_json = ''{}''\<rparr>"

definition ex_p1 :: proposal where
  "ex_p1 = \<lparr>key = ''p1'', cells = [''MediaWiki Title'' \<mapsto> ''Page One'']\<rparr>"

definition ex_p2 :: proposal where
  "ex_p2 = \<lparr>key = ''p2'', cells = [''MediaWiki Title'' \<mapsto> ''Page Two'']\<rparr>"

definition ex_untitled :: proposal where
  "ex_untitled = \<lparr>key = ''p3'', cells = Map.empty\<rparr>"

definition ex_blank :: proposal where
  "ex_blank = \<lparr>key = ''p4'', cells = [''MediaWiki Title'' \<mapsto> []]\<rparr>"

definition ex_attachment :: attachment where
  "ex_attachment = \<lparr>att_file = ''doc.pdf'', att_path = ''/tmp/doc.pdf'', att_key = ''p1'',
     att_column_name = ''Attachments''\<rparr>"

definition ex_lost_attachment :: attachment where
  "ex_lost_attachment = \<lparr>att_file = ''gone.pdf'', att_path = ''/tmp/gone.pdf'',
     att_key = ''p2'', att_column_name = ''Attachments''\<rparr>"

definition ex_comp :: competition where
  "ex_comp = \<lparr>key_column_name = ''Application #'', to_csv = ''csv'', tocs = [ex_toc],
     ordered_proposals = [ex_p1, ex_p2]\<rparr>"

definition ex_wiki :: world where
  "ex_wiki = ex_world\<lparr>pages := [(''Page One'', ''edited by hand''), (''Page Two'', ''stub''),
     (''Stray'', ''left over'')]\<rparr>"

definition ex_tidy_wiki :: world where
  "ex_tidy_wiki = ex_world\<lparr>pages := [(''Page Two'', ''stub''), (''Page One'', ''stub'')]\<rparr>"

definition ex_faulty :: "nat \<Rightarrow> world" where
  "ex_faulty n = ex_world\<lparr>faults := (\<lambda>k. k = n)\<rparr>"

section \<open>Properties\<close>

subsection \<open>What each method adds to the world\<close>

lemmas prims = raw_call_def site_page_def page_save_def allpages_def open_read_def print_line_def Let_def

lemma and_then_Inr_iff:
  "and_then m f = (Inr y, w') \<longleftrightarrow> (\<exists>x w1. m = (Inr x, w1) \<and> f x w1 = (Inr y, w'))"
  by (cases m; cases "fst m") auto

lemma raw_call_calls [simp]: "calls (snd (raw_call a d f w)) = calls w @ [RawCall a d f]"
  by (simp add: prims)
lemma site_page_calls [simp]: "calls (snd (site_page t w)) = calls w @ [PageGet t]"
  by (simp add: prims)
lemma page_save_calls [simp]: "calls (snd (page_save t b w)) = calls w @ [PageSave t b]"
  by (simp add: prims)
lemma allpages_calls [simp]: "calls (snd (allpages w)) = calls w @ [AllPages]"
  by (simp add: prims)
lemma open_read_calls [simp]: "calls (snd (open_read p w)) = calls w @ [FileOpen p]"
  by (simp add: prims split: option.splits)
lemma print_line_calls [simp]: "calls (print_line l w) = calls w"
  by (simp add: prims)

lemma issued_append [simp]: "calls w' = calls w @ xs \<Longrightarrow> issued w w' = xs"
  by (simp add: issued_def)

lemma upload_toc_issued:
  assumes "P (toc_call s t)" "P (PageGet (toc_name t))" "P (PageSave (toc_name t) (toc_page_body s t))"
  shows "\<exists>xs. calls (snd (upload_toc s t w)) = calls w @ xs \<and> list_all P xs"
  using assms
  by (auto simp: upload_toc_def toc_call_def prims)

lemma upload_tocs_issued:
  assumes "\<forall>t\<in>set ts. P (toc_call s t) \<and> P (PageGet (toc_name t)) \<and> P (PageSave (toc_name t) (toc_page_body s t))"
  shows "\<exists>xs. calls (snd (upload_tocs s ts w)) = calls w @ xs \<and> list_all P xs"
  using assms
proof (induction ts arbitrary: w)
  case Nil
  then show ?case by simp
next
  case (Cons t ts)
  from Cons.prems obtain xs where xs: "calls (snd (upload_toc s t w)) = calls w @ xs" "list_all P xs"
    using upload_toc_issued[of P s t w] by auto
  show ?case
  proof (cases "upload_toc s t w")
    case (Pair r w1)
    show ?thesis
    proof (cases r)
      case (Inl e)
      with Pair xs show ?thesis by auto
    next
      case (Inr u)
      from Cons.IH[of w1] Cons.prems obtain ys where
        ys: "calls (snd (upload_tocs s ts w1)) = calls w1 @ ys" "list_all P ys" by auto
      with Pair Inr xs show ?thesis by auto
    qed
  qed
qed


lemma create_page_issued:
  assumes "\<And>title. P (PageGet title)" "\<And>title body. P (PageSave title body)"
  shows "\<exists>xs. calls (create_page t b f w) = calls w @ xs \<and> list_all P xs"
  using assms
  by (auto simp: create_page_def prims)

lemma create_pages_issued:
  assumes "\<And>title. P (PageGet title)" "\<And>title body. P (PageSave title body)"
  shows "\<exists>xs. calls (snd (create_pages tc s ps w)) = calls w @ xs \<and> list_all P xs"
proof (induction ps arbitrary: w)
  case Nil
  then show ?case by simp
next
  case (Cons p ps)
  show ?case
  proof (cases "cell p tc")
    case None
    then show ?thesis by simp
  next
    case (Some t)
    obtain xs where xs: "calls (create_page t (proposal_page_body s p) False w) = calls w @ xs"
      "list_all P xs"
      using create_page_issued[of P t _ False w] assms by blast
    obtain ys where ys: "calls (snd (create_pages tc s ps (create_page t (proposal_page_body s p) False w)))
        = calls (create_page t (proposal_page_body s p) False w) @ ys" "list_all P ys"
      using Cons.IH by blast
    from Some xs ys show ?thesis by simp
  qed
qed

lemma print_suspicious_out:
  "out (print_suspicious added ts w) = out w @ filter (\<lambda>t. Some t \<notin> set added) ts"
  by (induction ts arbitrary: w) (auto simp: print_line_def)

lemma print_suspicious_calls [simp]: "calls (print_suspicious added ts w) = calls w"
  by (induction ts arbitrary: w) (auto simp: print_line_def)

lemma print_suspicious_pages [simp]: "pages (print_suspicious added ts w) = pages w"
  by (induction ts arbitrary: w) (auto simp: print_line_def)

lemma sanity_check_wiki_calls [simp]:
  "calls (snd (sanity_check_wiki tc cmp w)) = calls w @ [AllPages]"
  by (simp add: sanity_check_wiki_def prims)

lemma upload_attachment_calls:
  "calls (snd (upload_attachment s a w)) = calls w @
     (case files w (att_path a) of None \<Rightarrow> [FileOpen (att_path a)]
      | Some bytes \<Rightarrow> [FileOpen (att_path a), attachment_call s a bytes])"
  by (simp add: upload_attachment_def attachment_call_def prims split: option.splits)

lemma upload_attachment_files [simp]: "files (snd (upload_attachment s a w)) = files w"
  by (simp add: upload_attachment_def prims split: option.splits)


lemma create_pages_titled_returns:
  "\<forall>p\<in>set ps. cell p tc \<noteq> None \<Longrightarrow> fst (create_pages tc s ps w) = Inr ()"
  by (induction ps arbitrary: w) auto


lemma page_gets_append: "page_gets (xs @ ys) = page_gets xs @ page_gets ys"
  by (induction xs rule: page_gets.induct) auto

lemma create_page_gets:
  "\<exists>xs. calls (create_page t b f w) = calls w @ xs \<and> page_gets xs = (if t = [] then [] else [t])"
  by (auto simp: create_page_def prims)

lemma create_pages_gets:
  "\<forall>p\<in>set ps. cell p tc \<noteq> None \<Longrightarrow>
   \<exists>xs. calls (snd (create_pages tc s ps w)) = calls w @ xs
      \<and> page_gets xs = filter (\<lambda>t. t \<noteq> []) (record_titles tc ps)"
proof (induction ps arbitrary: w)
  case Nil
  then show ?case by (simp add: record_titles_def List.map_filter_simps)
next
  case (Cons p ps)
  then obtain t where t: "cell p tc = Some t" by auto
  let ?w1 = "create_page t (proposal_page_body s p) False w"
  obtain xs where xs: "calls ?w1 = calls w @ xs" "page_gets xs = (if t = [] then [] else [t])"
    using create_page_gets by blast
  obtain ys where ys: "calls (snd (create_pages tc s ps ?w1)) = calls ?w1 @ ys"
    "page_gets ys = filter (\<lambda>t. t \<noteq> []) (record_titles tc ps)"
    using Cons.IH[of ?w1] Cons.prems by auto
  have "calls (snd (create_pages tc s (p # ps) w)) = calls w @ (xs @ ys)"
    using t xs ys by simp
  moreover have "page_gets (xs @ ys) = filter (\<lambda>t. t \<noteq> []) (record_titles tc (p # ps))"
    using t xs ys by (simp add: page_gets_append record_titles_def List.map_filter_simps)
  ultimately show ?case by blast
qed

lemma create_page_out:
  "page_title \<noteq> [] \<Longrightarrow>
   out (create_page page_title body flag w) = out w @
     (if faults w (length (calls w))
         \<or> ((\<not> page_exists page_title w \<or> flag) \<and> faults w (Suc (length (calls w))))
      then [page_title @ '' failed to save''] else [])"
  by (simp add: create_page_def prims)

lemma attachment_calls_files: "files w1 = files w \<Longrightarrow> attachment_calls s w1 = attachment_calls s w"
  by (rule ext) (simp add: attachment_calls_def)

lemma upload_tocs_append_fail:
  "upload_tocs s pre w1 = (Inr (), w2) \<Longrightarrow> fst (upload_toc s t w2) = Inl e \<Longrightarrow>
   upload_tocs s (pre @ t # post) w1 = upload_toc s t w2"
proof (induction pre arbitrary: w1)
  case Nil
  then show ?case by (cases "upload_toc s t w2") auto
next
  case (Cons a pre)
  from Cons.prems(1) obtain x w1' where a: "upload_toc s a w1 = (Inr x, w1')"
      and rest: "upload_tocs s pre w1' = (Inr (), w2)"
    by (auto simp: and_then_Inr_iff)
  from Cons.IH[OF rest Cons.prems(2)] a show ?case by simp
qed

lemma upload_toc_page_fault:
  assumes "\<not> faults w (length (calls w))"
    and "faults w (Suc (length (calls w)))
         \<or> (\<not> page_exists (toc_name t) w \<and> faults w (Suc (Suc (length (calls w)))))"
  shows "fst (upload_toc s t w) = Inl TransportError"
    and "calls (snd (upload_toc s t w)) = calls w @ toc_call s t # PageGet (toc_name t) #
           (if faults w (Suc (length (calls w))) then []
            else [PageSave (toc_name t) (toc_page_body s t)])"
    and "pages (snd (upload_toc s t w)) = pages w"
  using assms by (auto simp: upload_toc_def toc_call_def prims page_exists_def)

lemma upload_sheet_unfold:
  "\<not> faults w (length (calls w)) \<Longrightarrow>
   upload_sheet tc s cmp w =
     and_then (upload_tocs s (tocs cmp) (w\<lparr>calls := calls w @ [sheet_call s cmp]\<rparr>))
       (\<lambda>_ w2. and_then
          (if \<not> csv_only s then create_pages tc s (ordered_proposals cmp) w2 else (Inr (), w2))
          (\<lambda>_ w3. sanity_check_wiki tc cmp w3))"
  by (simp add: upload_sheet_def sheet_call_def prims)


lemma upload_sheet_issued:
  assumes sheet: "P (sheet_call s cmp)"
    and toc: "\<forall>t\<in>set (tocs cmp). P (toc_call s t) \<and> P (PageGet (toc_name t))
                \<and> P (PageSave (toc_name t) (toc_page_body s t))"
    and page: "\<not> csv_only s \<Longrightarrow> (\<forall>title. P (PageGet title)) \<and> (\<forall>title body. P (PageSave title body))"
  shows "\<exists>pub aud. calls (snd (upload_sheet tc s cmp w)) = calls w @ sheet_call s cmp # pub @ aud
           \<and> list_all P pub \<and> (aud = [] \<or> aud = [AllPages])"
proof (cases "faults w (length (calls w))")
  case True
  then have "calls (snd (upload_sheet tc s cmp w)) = calls w @ sheet_call s cmp # [] @ []"
    by (simp add: upload_sheet_def sheet_call_def prims)
  moreover have "list_all P []" by simp
  ultimately show ?thesis by blast
next
  case False
  let ?w1 = "w\<lparr>calls := calls w @ [sheet_call s cmp]\<rparr>"
  let ?mid = "\<lambda>w2. if \<not> csv_only s then create_pages tc s (ordered_proposals cmp) w2
                   else (Inr (), w2)"
  note unf = upload_sheet_unfold[OF False, of tc s cmp]
  obtain xs where xs: "calls (snd (upload_tocs s (tocs cmp) ?w1)) = calls ?w1 @ xs" "list_all P xs"
    using upload_tocs_issued[OF toc] by blast
  obtain r w2 where t: "upload_tocs s (tocs cmp) ?w1 = (r, w2)"
    by (cases "upload_tocs s (tocs cmp) ?w1")
  show ?thesis
  proof (cases r)
    case (Inl e)
    have "calls (snd (upload_sheet tc s cmp w)) = calls w @ sheet_call s cmp # xs @ []"
      using unf t Inl xs by simp
    with xs(2) show ?thesis by blast
  next
    case (Inr u)
    have "\<exists>ys. calls (snd (?mid w2)) = calls w2 @ ys \<and> list_all P ys"
    proof (cases "csv_only s")
      case True
      then show ?thesis by simp
    next
      case False
      with page create_pages_issued[of P tc s "ordered_proposals cmp" w2] show ?thesis by simp
    qed
    then obtain ys where ys: "calls (snd (?mid w2)) = calls w2 @ ys" "list_all P ys" by blast
    obtain r' w3 where m: "?mid w2 = (r', w3)" by (cases "?mid w2")
    have c2: "calls w2 = calls w @ sheet_call s cmp # xs" using xs t by simp
    have c3: "calls w3 = calls w2 @ ys" using ys m by simp
    have step: "upload_sheet tc s cmp w = and_then (r', w3) (\<lambda>_ w3. sanity_check_wiki tc cmp w3)"
      using unf t Inr m by simp
    show ?thesis
    proof (cases r')
      case (Inl e)
      have "calls (snd (upload_sheet tc s cmp w)) = calls w @ sheet_call s cmp # (xs @ ys) @ []"
        using step Inl c2 c3 by simp
      moreover have "list_all P (xs @ ys)" using xs(2) ys(2) by simp
      ultimately show ?thesis by blast
    next
      case (Inr u')
      have "calls (snd (upload_sheet tc s cmp w)) = calls w @ sheet_call s cmp # (xs @ ys) @ [AllPages]"
        using step Inr c2 c3 by simp
      moreover have "list_all P (xs @ ys)" using xs(2) ys(2) by simp
      ultimately show ?thesis by blast
    qed
  qed
qed

lemma upload_each_issued:
  "\<exists>att. calls (snd (upload_each s atts w)) = calls w @ att
      \<and> list_all (\<lambda>c. is_file_open c \<or> is_attachment_upload c) att"
proof (induction atts arbitrary: w)
  case Nil
  then show ?case by simp
next
  case (Cons a as)
  let ?Q = "\<lambda>c. is_file_open c \<or> is_attachment_upload c"
  obtain r w1 where step: "upload_attachment s a w = (r, w1)" by (cases "upload_attachment s a w")
  have "\<exists>xs. calls w1 = calls w @ xs \<and> list_all ?Q xs"
    using upload_attachment_calls[of s a w] step
    by (auto simp: attachment_call_def split: option.splits)
  then obtain xs where xs: "calls w1 = calls w @ xs" "list_all ?Q xs" by blast
  show ?case
  proof (cases r)
    case (Inl e)
    with step xs show ?thesis by auto
  next
    case (Inr u)
    obtain ys where ys: "calls (snd (upload_each s as w1)) = calls w1 @ ys" "list_all ?Q ys"
      using Cons.IH[of w1] by blast
    have "calls (snd (upload_each s (a # as) w)) = calls w @ (xs @ ys)"
      using step Inr xs ys by simp
    moreover have "list_all ?Q (xs @ ys)" using xs ys by simp
    ultimately show ?thesis by blast
  qed
qed

lemma upload_attachments_issued:
  "\<exists>att. calls (snd (upload_attachments s atts w)) = calls w @ att
      \<and> list_all (\<lambda>c. is_file_open c \<or> is_attachment_upload c) att"
  using upload_each_issued[of s atts w] by (simp add: upload_attachments_def)

lemma earlier_part_first:
  assumes "list_all (\<lambda>c. \<not> Q c) ys" and "list_all (\<lambda>c. \<not> R c) zs"
    and "i < length (ys @ zs)" and "j < length (ys @ zs)"
    and "R ((ys @ zs) ! i)" and "Q ((ys @ zs) ! j)"
  shows "i < j"
proof -
  have i: "i < length ys"
  proof (rule ccontr)
    assume "\<not> i < length ys"
    then have "(ys @ zs) ! i = zs ! (i - length ys)" "i - length ys < length zs"
      using assms(3) by (auto simp: nth_append)
    then show False using assms(2,5) by (auto simp: list_all_length)
  qed
  have j: "length ys \<le> j"
  proof (rule ccontr)
    assume "\<not> length ys \<le> j"
    then have "(ys @ zs) ! j = ys ! j" "j < length ys" by (auto simp: nth_append)
    then show False using assms(1,6) by (auto simp: list_all_length)
  qed
  from i j show ?thesis by simp
qed

lemma create_pages_append:
  "\<forall>q\<in>set pre. cell q tc \<noteq> None \<Longrightarrow>
   create_pages tc s (pre @ rest) w = create_pages tc s rest (snd (create_pages tc s pre w))"
  by (induction pre arbitrary: w) auto

lemma create_page_calls:
  "page_title \<noteq> [] \<Longrightarrow>
   calls (create_page page_title body False w) = calls w @ PageGet page_title #
     (if \<not> faults w (length (calls w)) \<and> \<not> page_exists page_title w
      then [PageSave page_title body] else [])"
  by (simp add: create_page_def prims)

lemma create_page_pages:
  "page_title \<noteq> [] \<Longrightarrow>
   pages (create_page page_title body False w) =
     (if \<not> faults w (length (calls w)) \<and> \<not> page_exists page_title w
         \<and> \<not> faults w (Suc (length (calls w)))
      then AList.update page_title body (pages w) else pages w)"
  by (simp add: create_page_def prims page_exists_def)

lemma create_page_faults [simp]: "faults (create_page page_title body flag w) = faults w"
  by (simp add: create_page_def prims)

lemma create_pages_faults [simp]: "faults (snd (create_pages tc s ps w)) = faults w"
  by (induction ps arbitrary: w) (auto split: option.splits)

lemma upload_attachment_sent:
  assumes "files w (att_path a) = Some bytes" and "\<not> faults w (Suc (length (calls w)))"
  shows "fst (upload_attachment s a w) = Inr ()"
    and "calls (snd (upload_attachment s a w))
           = calls w @ [FileOpen (att_path a), attachment_call s a bytes]"
    and "out (snd (upload_attachment s a w)) = out w @ [''Uploading '' @ att_file a]"
    and "faults (snd (upload_attachment s a w)) = faults w"
  using assms by (simp_all add: upload_attachment_def attachment_call_def prims)

lemma upload_attachment_unreadable:
  assumes "files w (att_path a) = None"
  shows "fst (upload_attachment s a w) = Inl FileError"
    and "calls (snd (upload_attachment s a w)) = calls w @ [FileOpen (att_path a)]"
    and "out (snd (upload_attachment s a w)) = out w @ [''Uploading '' @ att_file a]"
  using assms by (simp_all add: upload_attachment_def prims)

lemma upload_attachment_unsent:
  assumes "files w (att_path a) = Some bytes" and "faults w (Suc (length (calls w)))"
  shows "fst (upload_attachment s a w) = Inl TransportError"
    and "calls (snd (upload_attachment s a w))
           = calls w @ [FileOpen (att_path a), attachment_call s a bytes]"
    and "out (snd (upload_attachment s a w)) = out w @ [''Uploading '' @ att_file a]"
  using assms by (simp_all add: upload_attachment_def attachment_call_def prims)

lemma upload_each_append:
  "fst (upload_each s pre w) = Inr () \<Longrightarrow>
   upload_each s (pre @ rest) w = upload_each s rest (snd (upload_each s pre w))"
proof (induction pre arbitrary: w)
  case Nil
  then show ?case by simp
next
  case (Cons a pre)
  obtain r w1 where step: "upload_attachment s a w = (r, w1)" by (cases "upload_attachment s a w")
  show ?case
  proof (cases r)
    case (Inl e)
    with step Cons.prems show ?thesis by simp
  next
    case (Inr u)
    with step Cons.prems have "fst (upload_each s pre w1) = Inr ()" by simp
    from Cons.IH[OF this] step Inr show ?thesis by simp
  qed
qed

lemma upload_each_sent:
  "\<forall>k<length pre. files w (att_path (pre ! k)) \<noteq> None
       \<and> \<not> faults w (length (calls w) + 2 * k + 1) \<Longrightarrow>
   fst (upload_each s pre w) = Inr ()
   \<and> calls (snd (upload_each s pre w)) = calls w @ concat (map (attachment_calls s w) pre)
   \<and> length (calls (snd (upload_each s pre w))) = length (calls w) + 2 * length pre
   \<and> out (snd (upload_each s pre w)) = out w @ map (\<lambda>b. ''Uploading '' @ att_file b) pre
   \<and> files (snd (upload_each s pre w)) = files w
   \<and> faults (snd (upload_each s pre w)) = faults w"
proof (induction pre arbitrary: w)
  case Nil
  then show ?case by simp
next
  case (Cons a pre)
  from Cons.prems have "files w (att_path a) \<noteq> None \<and> \<not> faults w (length (calls w) + 2 * 0 + 1)"
    by (metis length_greater_0_conv list.distinct(1) nth_Cons_0)
  then obtain bytes where b: "files w (att_path a) = Some bytes"
      and nf: "\<not> faults w (Suc (length (calls w)))" by auto
  obtain r w1 where step: "upload_attachment s a w = (r, w1)" by (cases "upload_attachment s a w")
  note S = upload_attachment_sent[OF b nf, of s]
  have r: "r = Inr ()" using S(1) step by simp
  have c1: "calls w1 = calls w @ [FileOpen (att_path a), attachment_call s a bytes]"
    using S(2) step by simp
  have o1: "out w1 = out w @ [''Uploading '' @ att_file a]" using S(3) step by simp
  have fa1: "faults w1 = faults w" using S(4) step by simp
  have fi1: "files w1 = files w" using upload_attachment_files[of s a w] step by simp
  have rest: "\<forall>k<length pre. files w1 (att_path (pre ! k)) \<noteq> None
       \<and> \<not> faults w1 (length (calls w1) + 2 * k + 1)"
  proof (intro allI impI)
    fix k assume k: "k < length pre"
    then have "Suc k < length (a # pre)" by simp
    with Cons.prems have "files w (att_path ((a # pre) ! Suc k)) \<noteq> None
        \<and> \<not> faults w (length (calls w) + 2 * Suc k + 1)" by blast
    then show "files w1 (att_path (pre ! k)) \<noteq> None
        \<and> \<not> faults w1 (length (calls w1) + 2 * k + 1)"
      by (simp add: fi1 fa1 c1)
  qed
  note IH = Cons.IH[OF rest]
  have same: "attachment_calls s w1 = attachment_calls s w" by (rule attachment_calls_files[OF fi1])
  have e: "upload_each s (a # pre) w = upload_each s pre w1" using step r by simp
  have ac: "attachment_calls s w a = [FileOpen (att_path a), attachment_call s a bytes]"
    by (simp add: attachment_calls_def b)
  have i1: "fst (upload_each s pre w1) = Inr ()" using IH by blast
  have i2: "calls (snd (upload_each s pre w1)) = calls w1 @ concat (map (attachment_calls s w1) pre)"
    using IH by blast
  have i3: "length (calls (snd (upload_each s pre w1))) = length (calls w1) + 2 * length pre"
    using IH by blast
  have i4: "out (snd (upload_each s pre w1)) = out w1 @ map (\<lambda>b. ''Uploading '' @ att_file b) pre"
    using IH by blast
  have i5: "files (snd (upload_each s pre w1)) = files w1" using IH by blast
  have i6: "faults (snd (upload_each s pre w1)) = faults w1" using IH by blast
  have g2: "calls (snd (upload_each s pre w1)) = calls w @ concat (map (attachment_calls s w) (a # pre))"
    by (simp add: i2 c1 same ac)
  have g3: "length (calls (snd (upload_each s pre w1))) = length (calls w) + 2 * length (a # pre)"
    by (simp add: i3 c1)
  have g4: "out (snd (upload_each s pre w1))
      = out w @ map (\<lambda>b. ''Uploading '' @ att_file b) (a # pre)"
    by (simp add: i4 o1)
  have g5: "files (snd (upload_each s pre w1)) = files w" by (simp add: i5 fi1)
  have g6: "faults (snd (upload_each s pre w1)) = faults w" by (simp add: i6 fa1)
  show ?case unfolding e using i1 g2 g3 g4 g5 g6 by blast
qed

lemmas ex_defs = ex_title_column_def ex_session_def ex_session_csv_def ex_world_def ex_toc_def
  ex_p1_def ex_p2_def ex_untitled_def ex_blank_def ex_attachment_def ex_lost_attachment_def
  ex_comp_def ex_wiki_def ex_tidy_wiki_def ex_faulty_def

subsection \<open>C1: data-only mode\<close>

text \<open>
  Claim C1 says that with \<open>csv_only\<close> set, \<open>upload_sheet\<close> uploads the sheet and issues no
  TOC-page-create call.  The code guards only \<open>create_pages\<close> with the flag;
  \<open>upload_toc\<close> runs for every TOC and, as its docstring says, creates the TOC's page
  when the wiki has none.  On the example dataset (one TOC, "Regions", no such page yet) the
  data-only run saves the page "Regions".
\<close>

theorem csv_only_toc_page_counterexample:
  "csv_only ex_session_csv
   \<and> fst (upload_sheet ex_title_column ex_session_csv ex_comp ex_world) = Inr ()
   \<and> calls (snd (upload_sheet ex_title_column ex_session_csv ex_comp ex_world))
       = [sheet_call ex_session_csv ex_comp, toc_call ex_session_csv ex_toc, PageGet ''Regions'',
          PageSave ''Regions'' (toc_page_body ex_session_csv ex_toc), AllPages]
   \<and> map fst (pages (snd (upload_sheet ex_title_column ex_session_csv ex_comp ex_world)))
       = [''Regions'']"
  by (simp add: upload_sheet_def upload_toc_def sanity_check_wiki_def sheet_call_def toc_call_def
      prims page_exists_def ex_session_csv_def ex_comp_def ex_toc_def ex_world_def)

text \<open>
  Claim C1, as the code has it: with \<open>csv_only\<close> set, the first call \<open>upload_sheet\<close>
  issues is the sheet upload; none of its calls is an attachment upload or a file read;
  every page it fetches is a TOC's display page and every page it saves is a TOC's display
  page with that TOC's generated body (so no record page is fetched or created); and
  \<open>upload_attachments\<close> returns at once, leaving the world as it was: no call, no file
  read, no output.
\<close>

theorem csv_only_suppresses_record_pages_and_attachments:
  assumes "csv_only s"
  shows "take 1 (issued w (snd (upload_sheet title_column s cmp w))) = [sheet_call s cmp]
       \<and> list_all (\<lambda>c. \<not> is_attachment_upload c \<and> \<not> is_file_open c \<and> toc_page_call s cmp c)
           (issued w (snd (upload_sheet title_column s cmp w)))
       \<and> upload_attachments s attachments w' = (Inr (), w')"
proof -
  let ?P = "\<lambda>c. \<not> is_attachment_upload c \<and> \<not> is_file_open c \<and> toc_page_call s cmp c"
  have sheet: "?P (sheet_call s cmp)" by (simp add: sheet_call_def)
  have toc: "\<forall>t\<in>set (tocs cmp). ?P (toc_call s t) \<and> ?P (PageGet (toc_name t))
                \<and> ?P (PageSave (toc_name t) (toc_page_body s t))"
    by (auto simp: toc_call_def)
  have page: "\<not> csv_only s \<Longrightarrow> (\<forall>title. ?P (PageGet title)) \<and> (\<forall>title body. ?P (PageSave title body))"
    using assms by simp
  obtain pub aud where d: "calls (snd (upload_sheet title_column s cmp w))
        = calls w @ sheet_call s cmp # pub @ aud" "list_all ?P pub" "aud = [] \<or> aud = [AllPages]"
    using upload_sheet_issued[of ?P s cmp title_column w, OF sheet toc page] by blast
  have i: "issued w (snd (upload_sheet title_column s cmp w)) = sheet_call s cmp # pub @ aud"
    using d(1) by simp
  have a: "list_all ?P aud" using d(3) by auto
  have 1: "take 1 (issued w (snd (upload_sheet title_column s cmp w))) = [sheet_call s cmp]"
    by (simp add: i)
  have 2: "list_all ?P (issued w (snd (upload_sheet title_column s cmp w)))"
    unfolding i using sheet d(2) a by simp
  have 3: "upload_attachments s attachments w' = (Inr (), w')"
    using assms by (simp add: upload_attachments_def)
  show ?thesis using 1 2 3 by blast
qed

text \<open>
  Claim C1, witness: the data-only session on the example dataset.
\<close>

theorem csv_only_suppresses_record_pages_and_attachments_witness:
  "csv_only ex_session_csv
   \<and> take 1 (issued ex_world (snd (upload_sheet ex_title_column ex_session_csv ex_comp ex_world)))
       = [sheet_call ex_session_csv ex_comp]
   \<and> list_all (\<lambda>c. \<not> is_attachment_upload c \<and> \<not> is_file_open c
                  \<and> toc_page_call ex_session_csv ex_comp c)
       (issued ex_world (snd (upload_sheet ex_title_column ex_session_csv ex_comp ex_world)))
   \<and> upload_attachments ex_session_csv [ex_attachment] ex_world = (Inr (), ex_world)"
proof -
  have h: "csv_only ex_session_csv" by (simp add: ex_session_csv_def)
  show ?thesis
    using h csv_only_suppresses_record_pages_and_attachments
      [OF h, of ex_world ex_title_column ex_comp "[ex_attachment]" ex_world]
    by blast
qed

subsection \<open>C2: records without a title\<close>

text \<open>
  Claim C2 says that when any record lacks a title, \<open>create_pages\<close> fails before any
  page-create call, also for the records before the title-less one.  The code tests the
  title inside the loop, record by record.  With a titled record followed by an untitled
  one, the page of the first is fetched and saved before the exception is raised.
\<close>

theorem create_pages_untitled_counterexample:
  "cell ex_untitled ex_title_column = None
   \<and> fst (create_pages ex_title_column ex_session [ex_p1, ex_untitled] ex_world) = Inl PreconditionError
   \<and> calls (snd (create_pages ex_title_column ex_session [ex_p1, ex_untitled] ex_world))
       = [PageGet ''Page One'', PageSave ''Page One'' (proposal_page_body ex_session ex_p1)]
   \<and> map fst (pages (snd (create_pages ex_title_column ex_session [ex_p1, ex_untitled] ex_world)))
       = [''Page One'']"
  by (simp add: create_page_def prims page_exists_def cell_def ex_defs)

lemma create_pages_append_untitled:
  assumes "\<forall>p\<in>set pre. cell p tc \<noteq> None" and "cell q tc = None"
  shows "create_pages tc s (pre @ q # post) w = (Inl PreconditionError, snd (create_pages tc s pre w))"
  using assms by (induction pre arbitrary: w) auto

text \<open>
  Claim C2, as the code has it: when some record has no title, \<open>create_pages\<close> raises the
  precondition error, and it does so at the first such record in dataset order.  The world
  it leaves is the one reached by running \<open>create_pages\<close> on the records before that
  one (which returns normally): \<open>create_page\<close> has been called for each of them, and for
  no record from the title-less one on.
\<close>

theorem create_pages_stops_at_untitled:
  assumes "\<exists>p\<in>set ps. cell p title_column = None"
  shows "create_pages title_column s ps w
           = (Inl PreconditionError,
              snd (create_pages title_column s (takeWhile (\<lambda>p. cell p title_column \<noteq> None) ps) w))
       \<and> fst (create_pages title_column s (takeWhile (\<lambda>p. cell p title_column \<noteq> None) ps) w) = Inr ()"
proof -
  let ?pre = "takeWhile (\<lambda>p. cell p title_column \<noteq> None) ps"
  let ?rest = "dropWhile (\<lambda>p. cell p title_column \<noteq> None) ps"
  from assms have "?rest \<noteq> []" by (auto simp: dropWhile_eq_Nil_conv)
  then obtain q post where rest: "?rest = q # post" by (cases ?rest) auto
  then have q: "cell q title_column = None" using hd_dropWhile[of "\<lambda>p. cell p title_column \<noteq> None" ps]
    by (metis \<open>?rest \<noteq> []\<close> list.sel(1))
  have pre: "\<forall>p\<in>set ?pre. cell p title_column \<noteq> None" by (auto dest: set_takeWhileD)
  have split: "ps = ?pre @ q # post" using rest by (metis takeWhile_dropWhile_id)
  have 1: "create_pages title_column s (?pre @ q # post) w
      = (Inl PreconditionError, snd (create_pages title_column s ?pre w))"
    using create_pages_append_untitled[OF pre q] .
  have 2: "fst (create_pages title_column s ?pre w) = Inr ()"
    using create_pages_titled_returns[OF pre] .
  show ?thesis using 1 2 split by simp
qed

text \<open>
  Claim C2, witness: a titled record, an untitled one, another titled one.  Only the first
  record's page is touched.
\<close>

theorem create_pages_stops_at_untitled_witness:
  "(\<exists>p\<in>set [ex_p1, ex_untitled, ex_p2]. cell p ex_title_column = None)
   \<and> fst (create_pages ex_title_column ex_session [ex_p1, ex_untitled, ex_p2] ex_world)
       = Inl PreconditionError
   \<and> calls (snd (create_pages ex_title_column ex_session [ex_p1, ex_untitled, ex_p2] ex_world))
       = calls (snd (create_pages ex_title_column ex_session [ex_p1] ex_world))
   \<and> calls (snd (create_pages ex_title_column ex_session [ex_p1] ex_world))
       = [PageGet ''Page One'', PageSave ''Page One'' (proposal_page_body ex_session ex_p1)]"
proof -
  have h: "\<exists>p\<in>set [ex_p1, ex_untitled, ex_p2]. cell p ex_title_column = None"
    by (simp add: cell_def ex_untitled_def)
  have tw: "takeWhile (\<lambda>p. cell p ex_title_column \<noteq> None) [ex_p1, ex_untitled, ex_p2] = [ex_p1]"
    by (simp add: cell_def ex_untitled_def ex_p1_def ex_title_column_def)
  have c: "calls (snd (create_pages ex_title_column ex_session [ex_p1] ex_world))
       = [PageGet ''Page One'', PageSave ''Page One'' (proposal_page_body ex_session ex_p1)]"
    by (simp add: create_page_def prims page_exists_def cell_def ex_p1_def ex_title_column_def
        ex_world_def)
  show ?thesis
    using h c create_pages_stops_at_untitled [OF h, of ex_session ex_world]
    by (simp only: tw) simp
qed

subsection \<open>C3: an existing page is left alone\<close>

text \<open>
  Claim C3: for a non-empty title whose page exists on the wiki, \<open>create_page\<close> without
  \<open>create_if_exists\<close> issues the fetch of that page and nothing else (no save), whichever
  calls fail, and the page store is unchanged; a second call with the same title and body
  again only fetches and again changes nothing.
\<close>

theorem create_page_keeps_existing:
  assumes "page_title \<noteq> []" and "page_exists page_title w"
  shows "pages (create_page page_title body False w) = pages w
       \<and> issued w (create_page page_title body False w) = [PageGet page_title]
       \<and> pages (create_page page_title body False (create_page page_title body False w)) = pages w
       \<and> issued w (create_page page_title body False (create_page page_title body False w))
           = [PageGet page_title, PageGet page_title]"
  using assms
  by (simp add: create_page_def prims page_exists_def issued_def)

text \<open>
  Claim C3, witness: the wiki holds a hand-edited "Page One".
\<close>

theorem create_page_keeps_existing_witness:
  "''Page One'' \<noteq> [] \<and> page_exists ''Page One'' ex_wiki
   \<and> pages (create_page ''Page One'' ''new body'' False ex_wiki) = pages ex_wiki
   \<and> issued ex_wiki (create_page ''Page One'' ''new body'' False ex_wiki) = [PageGet ''Page One'']
   \<and> pages (create_page ''Page One'' ''new body'' False
         (create_page ''Page One'' ''new body'' False ex_wiki)) = pages ex_wiki
   \<and> issued ex_wiki (create_page ''Page One'' ''new body'' False
         (create_page ''Page One'' ''new body'' False ex_wiki))
       = [PageGet ''Page One'', PageGet ''Page One'']"
proof -
  have h1: "''Page One'' \<noteq> []" by simp
  have h2: "page_exists ''Page One'' ex_wiki"
    by (simp add: page_exists_def ex_wiki_def ex_world_def)
  show ?thesis
    using h1 h2 create_page_keeps_existing [OF h1 h2, of "''new body''"] by simp
qed

text \<open>
  The exception the claim names: with \<open>create_if_exists\<close> set and no transport fault, the
  body is written whether or not the page exists.
\<close>

lemma create_page_force_overwrites:
  assumes "page_title \<noteq> []" and "\<not> faults w (length (calls w))"
    and "\<not> faults w (Suc (length (calls w)))"
  shows "pages (create_page page_title body True w) = AList.update page_title body (pages w)"
  using assms by (simp add: create_page_def prims)

subsection \<open>C4: the sanity check\<close>

text \<open>
  Claim C4: when the page listing is retrieved, \<open>sanity_check_wiki\<close> returns normally and
  prints, after its header line, exactly the titles of the remote listing that are not the
  title cell of any record, in the order of the listing; it leaves the page store alone; and
  when every listed title is some record's title, the header is all it prints.
\<close>

theorem sanity_check_reports_unexpected:
  assumes "\<not> faults w (length (calls w))"
  shows "fst (sanity_check_wiki title_column cmp w) = Inr ()
       \<and> out (snd (sanity_check_wiki title_column cmp w))
           = out w @ audit_header #
               filter (\<lambda>t. Some t \<notin> set (map (\<lambda>p. cell p title_column) (ordered_proposals cmp)))
                 (map fst (pages w))
       \<and> pages (snd (sanity_check_wiki title_column cmp w)) = pages w
       \<and> (set (map fst (pages w)) \<subseteq> {t. Some t \<in> set (map (\<lambda>p. cell p title_column) (ordered_proposals cmp))}
            \<longrightarrow> out (snd (sanity_check_wiki title_column cmp w)) = out w @ [audit_header])"
proof -
  let ?added = "map (\<lambda>p. cell p title_column) (ordered_proposals cmp)"
  have r: "sanity_check_wiki title_column cmp w =
      (Inr (), print_suspicious ?added (map fst (pages w))
                 (print_line audit_header (w\<lparr>calls := calls w @ [AllPages]\<rparr>)))"
    using assms by (simp add: sanity_check_wiki_def allpages_def Let_def)
  have o: "out (snd (sanity_check_wiki title_column cmp w))
      = out w @ audit_header # filter (\<lambda>t. Some t \<notin> set ?added) (map fst (pages w))"
    by (simp add: r print_suspicious_out print_line_def)
  have e: "set (map fst (pages w)) \<subseteq> {t. Some t \<in> set ?added}
      \<Longrightarrow> filter (\<lambda>t. Some t \<notin> set ?added) (map fst (pages w)) = []"
    by (auto simp: filter_empty_conv)
  show ?thesis
    using o e by (simp add: r print_line_def)
qed

text \<open>
  Claim C4, witness: expected titles "Page One" and "Page Two".  A wiki that also holds
  "Stray" gets exactly "Stray" reported; a wiki holding only the two gets nothing reported.
\<close>

theorem sanity_check_reports_unexpected_witness:
  "\<not> faults ex_wiki (length (calls ex_wiki))
   \<and> fst (sanity_check_wiki ex_title_column ex_comp ex_wiki) = Inr ()
   \<and> out (snd (sanity_check_wiki ex_title_column ex_comp ex_wiki)) = [audit_header, ''Stray'']
   \<and> pages (snd (sanity_check_wiki ex_title_column ex_comp ex_wiki)) = pages ex_wiki
   \<and> \<not> faults ex_tidy_wiki (length (calls ex_tidy_wiki))
   \<and> set (map fst (pages ex_tidy_wiki))
        \<subseteq> {t. Some t \<in> set (map (\<lambda>p. cell p ex_title_column) (ordered_proposals ex_comp))}
   \<and> out (snd (sanity_check_wiki ex_title_column ex_comp ex_tidy_wiki)) = [audit_header]"
proof -
  have h1: "\<not> faults ex_wiki (length (calls ex_wiki))"
    by (simp add: ex_wiki_def ex_world_def)
  have h2: "\<not> faults ex_tidy_wiki (length (calls ex_tidy_wiki))"
    by (simp add: ex_tidy_wiki_def ex_world_def)
  have sub: "set (map fst (pages ex_tidy_wiki))
        \<subseteq> {t. Some t \<in> set (map (\<lambda>p. cell p ex_title_column) (ordered_proposals ex_comp))}"
    by (simp add: ex_tidy_wiki_def ex_world_def ex_comp_def ex_p1_def ex_p2_def cell_def
        ex_title_column_def)
  have a: "out (snd (sanity_check_wiki ex_title_column ex_comp ex_wiki)) = [audit_header, ''Stray'']"
    using sanity_check_reports_unexpected [OF h1, of ex_title_column ex_comp]
    by (simp add: ex_wiki_def ex_world_def ex_comp_def ex_p1_def ex_p2_def cell_def
        ex_title_column_def)
  have b: "out (snd (sanity_check_wiki ex_title_column ex_comp ex_tidy_wiki)) = [audit_header]"
    using sanity_check_reports_unexpected [OF h2, of ex_title_column ex_comp] sub
    by (simp add: ex_tidy_wiki_def ex_world_def)
  show ?thesis
    using h1 h2 sub a b sanity_check_reports_unexpected [OF h1, of ex_title_column ex_comp]
    by simp
qed

subsection \<open>C5: the raw flag of a TOC upload\<close>

text \<open>
  Claim C5: the first call \<open>upload_toc\<close> issues is the TOC upload, and it is the only raw
  call it issues.  In the request built from that call's parameters the field
  \<open>raw_toc\<close> carries the string "true" (non-empty, hence truthy) when the TOC declares
  raw mode, and there is no field \<open>raw_toc\<close> at all (not one with a false value) when it
  does not.
\<close>

theorem upload_toc_raw_flag:
  "(\<exists>rest. issued w (snd (upload_toc s t w)) = toc_call s t # rest
        \<and> list_all (\<lambda>c. \<not> is_raw_call c) rest)
   \<and> map_of (request_fields (call_data (hd (issued w (snd (upload_toc s t w)))))) ''raw_toc''
       = (if raw t then Some ''true'' else None)
   \<and> (''raw_toc'' \<in> fst ` set (request_fields (call_data (hd (issued w (snd (upload_toc s t w)))))))
       = raw t"
proof -
  have "\<exists>rest. calls (snd (upload_toc s t w)) = calls w @ toc_call s t # rest
      \<and> list_all (\<lambda>c. \<not> is_raw_call c) rest"
    by (auto simp: upload_toc_def toc_call_def prims)
  then obtain rest where r: "calls (snd (upload_toc s t w)) = calls w @ toc_call s t # rest"
      "list_all (\<lambda>c. \<not> is_raw_call c) rest" by blast
  have i: "issued w (snd (upload_toc s t w)) = toc_call s t # rest" using r(1) by simp
  have f: "request_fields (call_data (toc_call s t))
      = [(''action'', ''torquedataconnectuploadtoc''), (''format'', ''json''),
         (''sheet_name'', competition_name s), (''toc_name'', toc_name t)]
        @ (if raw t then [(''raw_toc'', ''true'')] else [])"
    by (simp add: request_fields_def toc_call_def)
  have 1: "\<exists>rest. issued w (snd (upload_toc s t w)) = toc_call s t # rest
        \<and> list_all (\<lambda>c. \<not> is_raw_call c) rest"
    using i r(2) by blast
  have 2: "map_of (request_fields (call_data (hd (issued w (snd (upload_toc s t w)))))) ''raw_toc''
       = (if raw t then Some ''true'' else None)"
    by (simp add: i f)
  have 3: "(''raw_toc'' \<in> fst ` set (request_fields (call_data (hd (issued w (snd (upload_toc s t w)))))))
       = raw t"
    by (cases "raw t") (simp_all add: i f)
  show ?thesis using 1 2 3 by blast
qed

text \<open>
  Claim C5, witness: the example TOC as it is (no raw mode: four fields, none of them
  \<open>raw_toc\<close>) and switched to raw mode.
\<close>

theorem upload_toc_raw_flag_witness:
  "\<not> raw ex_toc
   \<and> request_fields (call_data (hd (issued ex_world (snd (upload_toc ex_session ex_toc ex_world)))))
       = [(''action'', ''torquedataconnectuploadtoc''), (''format'', ''json''),
          (''sheet_name'', ''C''), (''toc_name'', ''Regions'')]
   \<and> ''raw_toc'' \<notin> fst ` set (request_fields
         (call_data (hd (issued ex_world (snd (upload_toc ex_session ex_toc ex_world))))))
   \<and> raw (ex_toc\<lparr>raw := True\<rparr>)
   \<and> map_of (request_fields (call_data (hd (issued ex_world
         (snd (upload_toc ex_session (ex_toc\<lparr>raw := True\<rparr>) ex_world)))))) ''raw_toc''
       = Some ''true''"
proof -
  note A = upload_toc_raw_flag [of ex_world ex_session ex_toc]
  note B = upload_toc_raw_flag [of ex_world ex_session "ex_toc\<lparr>raw := True\<rparr>"]
  have n: "\<not> raw ex_toc" by (simp add: ex_toc_def)
  have y: "raw (ex_toc\<lparr>raw := True\<rparr>)" by simp
  have a: "''raw_toc'' \<notin> fst ` set (request_fields
         (call_data (hd (issued ex_world (snd (upload_toc ex_session ex_toc ex_world))))))"
    using A n by blast
  have b: "map_of (request_fields (call_data (hd (issued ex_world
         (snd (upload_toc ex_session (ex_toc\<lparr>raw := True\<rparr>) ex_world)))))) ''raw_toc''
       = Some ''true''"
    using B y by simp
  have h: "hd (issued ex_world (snd (upload_toc ex_session ex_toc ex_world))) = toc_call ex_session ex_toc"
    using A by auto
  have c: "request_fields (call_data (hd (issued ex_world (snd (upload_toc ex_session ex_toc ex_world)))))
       = [(''action'', ''torquedataconnectuploadtoc''), (''format'', ''json''),
          (''sheet_name'', ''C''), (''toc_name'', ''Regions'')]"
    unfolding h
    by (simp add: request_fields_def toc_call_def ex_toc_def ex_session_def)
  show ?thesis using n y a b c by blast
qed

text \<open>
  In the dictionary itself, before the transport encodes it, the key \<open>raw_toc\<close> is always
  there; it is bound to \<open>None\<close> for a TOC that is not in raw mode.
\<close>

lemma toc_call_raw_toc_entry:
  "map_of (call_data (toc_call s t)) ''raw_toc'' = Some (if raw t then Some ''true'' else None)"
  by (simp add: toc_call_def)

subsection \<open>C6: where the sanity check runs\<close>

text \<open>
  Claim C6 says that in a full run every attachment upload happens before the audit's page
  listing is retrieved.  The code calls \<open>sanity_check_wiki\<close> as the last statement of
  \<open>upload_sheet\<close>, so in a full run the listing is retrieved before the first attachment
  is opened.
\<close>

theorem audit_before_attachments_counterexample:
  "calls (snd (full_run ex_title_column ex_session ex_comp [ex_attachment] ex_world))
     = [sheet_call ex_session ex_comp, toc_call ex_session ex_toc, PageGet ''Regions'',
        PageSave ''Regions'' (toc_page_body ex_session ex_toc),
        PageGet ''Page One'', PageSave ''Page One'' (proposal_page_body ex_session ex_p1),
        PageGet ''Page Two'', PageSave ''Page Two'' (proposal_page_body ex_session ex_p2),
        AllPages, FileOpen ''/tmp/doc.pdf'', attachment_call ex_session ex_attachment ''PDF'']
   \<and> is_attachment_upload (attachment_call ex_session ex_attachment ''PDF'')"
  by (simp add: full_run_def upload_sheet_def upload_toc_def sanity_check_wiki_def create_page_def
      upload_attachments_def upload_attachment_def sheet_call_def toc_call_def attachment_call_def
      prims page_exists_def cell_def ex_session_def ex_comp_def ex_toc_def ex_world_def ex_p1_def
      ex_p2_def ex_attachment_def ex_title_column_def)

text \<open>
  Claim C6, as the code has it: the calls of \<open>upload_sheet\<close> are publishing calls (sheet
  upload, TOC uploads, page fetches and saves; no listing, no attachment upload, no file
  read) followed by at most one page listing, which is therefore its last call; and in a full
  run (\<open>upload_sheet\<close>, then \<open>upload_attachments\<close>) the page listing comes before every
  attachment upload.
\<close>

theorem audit_ends_upload_sheet_before_attachments:
  "(\<exists>pub aud. issued w (snd (upload_sheet title_column s cmp w)) = pub @ aud
        \<and> list_all (\<lambda>c. c \<noteq> AllPages \<and> \<not> is_attachment_upload c \<and> \<not> is_file_open c) pub
        \<and> (aud = [] \<or> aud = [AllPages]))
   \<and> (\<forall>i j. i < length (issued w (snd (full_run title_column s cmp attachments w)))
          \<and> j < length (issued w (snd (full_run title_column s cmp attachments w)))
          \<and> issued w (snd (full_run title_column s cmp attachments w)) ! i = AllPages
          \<and> is_attachment_upload (issued w (snd (full_run title_column s cmp attachments w)) ! j)
        \<longrightarrow> i < j)"
proof -
  let ?P = "\<lambda>c. c \<noteq> AllPages \<and> \<not> is_attachment_upload c \<and> \<not> is_file_open c"
  let ?Q = "\<lambda>c. is_file_open c \<or> is_attachment_upload c"
  have sheet: "?P (sheet_call s cmp)" by (simp add: sheet_call_def)
  have toc: "\<forall>t\<in>set (tocs cmp). ?P (toc_call s t) \<and> ?P (PageGet (toc_name t))
                \<and> ?P (PageSave (toc_name t) (toc_page_body s t))"
    by (simp add: toc_call_def)
  have page: "\<not> csv_only s \<Longrightarrow> (\<forall>title. ?P (PageGet title)) \<and> (\<forall>title body. ?P (PageSave title body))"
    by simp
  obtain pub0 aud where d: "calls (snd (upload_sheet title_column s cmp w))
        = calls w @ sheet_call s cmp # pub0 @ aud" "list_all ?P pub0" "aud = [] \<or> aud = [AllPages]"
    using upload_sheet_issued[of ?P s cmp title_column w, OF sheet toc page] by blast
  let ?pub = "sheet_call s cmp # pub0"
  have pub: "list_all ?P ?pub" using sheet d(2) by simp
  have i1: "issued w (snd (upload_sheet title_column s cmp w)) = ?pub @ aud"
    using d(1) by simp
  have first: "\<exists>pub aud. issued w (snd (upload_sheet title_column s cmp w)) = pub @ aud
        \<and> list_all ?P pub \<and> (aud = [] \<or> aud = [AllPages])"
    using i1 pub d(3) by blast
  obtain r w1 where u: "upload_sheet title_column s cmp w = (r, w1)"
    by (cases "upload_sheet title_column s cmp w")
  have c1: "calls w1 = calls w @ ?pub @ aud" using d(1) u by simp
  have "\<exists>att. calls (snd (full_run title_column s cmp attachments w)) = calls w1 @ att
      \<and> list_all ?Q att"
  proof (cases r)
    case (Inl e)
    then have "calls (snd (full_run title_column s cmp attachments w)) = calls w1 @ []"
      using u by (simp add: full_run_def)
    moreover have "list_all ?Q []" by simp
    ultimately show ?thesis by blast
  next
    case (Inr x)
    then have "full_run title_column s cmp attachments w = upload_attachments s attachments w1"
      using u by (simp add: full_run_def)
    then show ?thesis using upload_attachments_issued[of s attachments w1] by simp
  qed
  then obtain att where att: "calls (snd (full_run title_column s cmp attachments w)) = calls w1 @ att"
      "list_all ?Q att" by blast
  have i2: "issued w (snd (full_run title_column s cmp attachments w)) = (?pub @ aud) @ att"
    using att(1) c1 by simp
  have no_up: "list_all (\<lambda>c. \<not> is_attachment_upload c) (?pub @ aud)"
    using pub d(3) by (auto simp: list_all_iff)
  have no_list: "list_all (\<lambda>c. \<not> c = AllPages) att"
    using att(2) by (auto simp: list_all_iff)
  have second: "\<forall>i j. i < length (issued w (snd (full_run title_column s cmp attachments w)))
          \<and> j < length (issued w (snd (full_run title_column s cmp attachments w)))
          \<and> issued w (snd (full_run title_column s cmp attachments w)) ! i = AllPages
          \<and> is_attachment_upload (issued w (snd (full_run title_column s cmp attachments w)) ! j)
        \<longrightarrow> i < j"
    unfolding i2
    using earlier_part_first[of is_attachment_upload "?pub @ aud" "\<lambda>c. c = AllPages" att,
        OF no_up no_list]
    by blast
  show ?thesis using first second by blast
qed

text \<open>
  Claim C6, witness: the full run on the example dataset with one attachment issues eleven
  calls; the listing is the ninth and the attachment upload the eleventh.
\<close>

theorem audit_ends_upload_sheet_before_attachments_witness:
  "(\<exists>pub aud. issued ex_world (snd (upload_sheet ex_title_column ex_session ex_comp ex_world))
          = pub @ aud
        \<and> list_all (\<lambda>c. c \<noteq> AllPages \<and> \<not> is_attachment_upload c \<and> \<not> is_file_open c) pub
        \<and> (aud = [] \<or> aud = [AllPages]))
   \<and> length (issued ex_world
        (snd (full_run ex_title_column ex_session ex_comp [ex_attachment] ex_world))) = 11
   \<and> issued ex_world
        (snd (full_run ex_title_column ex_session ex_comp [ex_attachment] ex_world)) ! 8 = AllPages
   \<and> is_attachment_upload (issued ex_world
        (snd (full_run ex_title_column ex_session ex_comp [ex_attachment] ex_world)) ! 10)
   \<and> (8::nat) < 10"
proof -
  let ?xs = "issued ex_world
        (snd (full_run ex_title_column ex_session ex_comp [ex_attachment] ex_world))"
  have c: "calls (snd (full_run ex_title_column ex_session ex_comp [ex_attachment] ex_world))
     = [sheet_call ex_session ex_comp, toc_call ex_session ex_toc, PageGet ''Regions'',
        PageSave ''Regions'' (toc_page_body ex_session ex_toc),
        PageGet ''Page One'', PageSave ''Page One'' (proposal_page_body ex_session ex_p1),
        PageGet ''Page Two'', PageSave ''Page Two'' (proposal_page_body ex_session ex_p2),
        AllPages, FileOpen ''/tmp/doc.pdf'', attachment_call ex_session ex_attachment ''PDF'']"
    by (simp add: full_run_def upload_sheet_def upload_toc_def sanity_check_wiki_def create_page_def
      upload_attachments_def upload_attachment_def sheet_call_def toc_call_def attachment_call_def
      prims page_exists_def cell_def ex_session_def ex_comp_def ex_toc_def ex_world_def ex_p1_def
      ex_p2_def ex_attachment_def ex_title_column_def)
  have e: "calls ex_world = []" by (simp add: ex_world_def)
  have xs: "?xs = [sheet_call ex_session ex_comp, toc_call ex_session ex_toc, PageGet ''Regions'',
        PageSave ''Regions'' (toc_page_body ex_session ex_toc),
        PageGet ''Page One'', PageSave ''Page One'' (proposal_page_body ex_session ex_p1),
        PageGet ''Page Two'', PageSave ''Page Two'' (proposal_page_body ex_session ex_p2),
        AllPages, FileOpen ''/tmp/doc.pdf'', attachment_call ex_session ex_attachment ''PDF'']"
    by (simp add: issued_def c e)
  have l: "length ?xs = 11" by (simp add: xs)
  have a: "?xs ! 8 = AllPages" by (simp add: xs)
  have u: "is_attachment_upload (?xs ! 10)" by (simp add: xs attachment_call_def)
  note T = audit_ends_upload_sheet_before_attachments
      [of ex_world ex_title_column ex_session ex_comp "[ex_attachment]"]
  have o: "(8::nat) < 10" using T l a u by simp
  show ?thesis using T l a u o by blast
qed

subsection \<open>C7: a failing page does not stop the others\<close>

text \<open>
  Claim C7: take a dataset in which every record has a title, and any record \<open>p\<close> of it
  with a non-empty title, with \<open>pre\<close> the records before it and \<open>post\<close> those after it.
  Under every fault schedule, and whatever failed for the records of \<open>pre\<close>:
  \<open>create_pages\<close> returns normally; when \<open>p\<close>'s turn comes (in the world \<open>w1\<close> that
  \<open>pre\<close> left) its page is fetched, and saved with \<open>p\<close>'s generated body when the fetch
  went through and found no page; a failed fetch, or a failed save where one was due, prints
  the title followed by " failed to save" and nothing else is printed; the page store changes
  only by a save that went through; and the run goes on with \<open>post\<close> from the world \<open>w2\<close>
  that \<open>p\<close> left.  Over the whole run the pages fetched are exactly the non-empty titles,
  each once and in dataset order.
\<close>

theorem create_pages_continues_after_failure:
  assumes "\<forall>q\<in>set (pre @ p # post). cell q title_column \<noteq> None"
    and "cell p title_column = Some page_title" and "page_title \<noteq> []"
  shows "let w1 = snd (create_pages title_column s pre w);
             w2 = snd (create_pages title_column s (pre @ [p]) w);
             n = length (calls w1)
         in fst (create_pages title_column s (pre @ p # post) w) = Inr ()
          \<and> create_pages title_column s (pre @ p # post) w = create_pages title_column s post w2
          \<and> faults w1 = faults w
          \<and> calls w2 = calls w1 @ PageGet page_title #
               (if \<not> faults w n \<and> \<not> page_exists page_title w1
                then [PageSave page_title (proposal_page_body s p)] else [])
          \<and> out w2 = out w1 @
               (if faults w n \<or> (\<not> page_exists page_title w1 \<and> faults w (Suc n))
                then [page_title @ '' failed to save''] else [])
          \<and> pages w2 =
               (if \<not> faults w n \<and> \<not> page_exists page_title w1 \<and> \<not> faults w (Suc n)
                then AList.update page_title (proposal_page_body s p) (pages w1) else pages w1)
          \<and> page_gets (issued w (snd (create_pages title_column s (pre @ p # post) w)))
               = filter (\<lambda>t. t \<noteq> []) (record_titles title_column (pre @ p # post))"
proof -
  let ?w1 = "snd (create_pages title_column s pre w)"
  let ?w2 = "snd (create_pages title_column s (pre @ [p]) w)"
  let ?body = "proposal_page_body s p"
  have pre: "\<forall>q\<in>set pre. cell q title_column \<noteq> None" using assms(1) by simp
  have prep: "\<forall>q\<in>set (pre @ [p]). cell q title_column \<noteq> None" using assms(1) by simp
  have w2: "?w2 = create_page page_title ?body False ?w1"
    using create_pages_append[OF pre, of s "[p]" w] assms(2) by simp
  have f1: "faults ?w1 = faults w" by simp
  have 1: "fst (create_pages title_column s (pre @ p # post) w) = Inr ()"
    using create_pages_titled_returns[OF assms(1)] .
  have 2: "create_pages title_column s (pre @ p # post) w = create_pages title_column s post ?w2"
    using create_pages_append[OF prep, of s post w] by simp
  have 3: "calls ?w2 = calls ?w1 @ PageGet page_title #
               (if \<not> faults w (length (calls ?w1)) \<and> \<not> page_exists page_title ?w1
                then [PageSave page_title ?body] else [])"
    unfolding w2 using create_page_calls[OF assms(3), of ?body ?w1] by (simp only: f1)
  have 4: "out ?w2 = out ?w1 @
               (if faults w (length (calls ?w1))
                   \<or> (\<not> page_exists page_title ?w1 \<and> faults w (Suc (length (calls ?w1))))
                then [page_title @ '' failed to save''] else [])"
    unfolding w2 using create_page_out[OF assms(3), of ?body False ?w1] by (simp add: f1)
  have 5: "pages ?w2 =
               (if \<not> faults w (length (calls ?w1)) \<and> \<not> page_exists page_title ?w1
                   \<and> \<not> faults w (Suc (length (calls ?w1)))
                then AList.update page_title ?body (pages ?w1) else pages ?w1)"
    unfolding w2 using create_page_pages[OF assms(3), of ?body ?w1] by (simp only: f1)
  obtain xs where xs: "calls (snd (create_pages title_column s (pre @ p # post) w)) = calls w @ xs"
      "page_gets xs = filter (\<lambda>t. t \<noteq> []) (record_titles title_column (pre @ p # post))"
    using create_pages_gets[OF assms(1)] by blast
  have 6: "page_gets (issued w (snd (create_pages title_column s (pre @ p # post) w)))
      = filter (\<lambda>t. t \<noteq> []) (record_titles title_column (pre @ p # post))"
    using xs by simp
  show ?thesis unfolding Let_def using 1 2 f1 3 4 5 6 by blast
qed

text \<open>
  Claim C7, witness: the fetch of "Page One" fails and is logged; "Page Two" is still
  fetched, found missing and created.
\<close>

theorem create_pages_continues_after_failure_witness:
  "cell ex_p1 ex_title_column \<noteq> None \<and> cell ex_p2 ex_title_column = Some ''Page Two''
   \<and> ''Page Two'' \<noteq> []
   \<and> faults (ex_faulty 0) 0
   \<and> fst (create_pages ex_title_column ex_session [ex_p1, ex_p2] (ex_faulty 0)) = Inr ()
   \<and> calls (snd (create_pages ex_title_column ex_session [ex_p1, ex_p2] (ex_faulty 0)))
       = [PageGet ''Page One'',
          PageGet ''Page Two'', PageSave ''Page Two'' (proposal_page_body ex_session ex_p2)]
   \<and> out (snd (create_pages ex_title_column ex_session [ex_p1, ex_p2] (ex_faulty 0)))
       = [''Page One failed to save'']
   \<and> pages (snd (create_pages ex_title_column ex_session [ex_p1, ex_p2] (ex_faulty 0)))
       = [(''Page Two'', proposal_page_body ex_session ex_p2)]"
proof -
  let ?w1 = "snd (create_pages ex_title_column ex_session [ex_p1] (ex_faulty 0))"
  have c1: "cell ex_p1 ex_title_column = Some ''Page One''"
    by (simp add: cell_def ex_p1_def ex_title_column_def)
  have c2: "cell ex_p2 ex_title_column = Some ''Page Two''"
    by (simp add: cell_def ex_p2_def ex_title_column_def)
  have h1: "\<forall>q\<in>set ([ex_p1] @ ex_p2 # []). cell q ex_title_column \<noteq> None"
    using c1 c2 by simp
  have h3: "''Page Two'' \<noteq> []" by simp
  have f: "faults (ex_faulty 0) = (\<lambda>k. k = 0)" by (simp add: ex_faulty_def ex_world_def)
  have w1: "create_pages ex_title_column ex_session [ex_p1] (ex_faulty 0)
      = (Inr (), create_page ''Page One'' (proposal_page_body ex_session ex_p1) False (ex_faulty 0))"
    using c1 by simp
  have w1c: "calls ?w1 = [PageGet ''Page One'']"
    unfolding w1 by (simp add: create_page_def prims page_exists_def ex_faulty_def ex_world_def)
  have w1o: "out ?w1 = [''Page One failed to save'']"
    unfolding w1 by (simp add: create_page_def prims page_exists_def ex_faulty_def ex_world_def)
  have w1p: "pages ?w1 = []"
    unfolding w1 by (simp add: create_page_def prims page_exists_def ex_faulty_def ex_world_def)
  have ex: "\<not> page_exists ''Page Two'' ?w1" unfolding page_exists_def w1p by simp
  note T = create_pages_continues_after_failure
      [OF h1 c2 h3, of ex_session "ex_faulty 0", unfolded Let_def]
  have r: "fst (create_pages ex_title_column ex_session [ex_p1, ex_p2] (ex_faulty 0)) = Inr ()"
    using T by (simp del: create_pages.simps)
  have c: "calls (snd (create_pages ex_title_column ex_session [ex_p1, ex_p2] (ex_faulty 0)))
       = [PageGet ''Page One'',
          PageGet ''Page Two'', PageSave ''Page Two'' (proposal_page_body ex_session ex_p2)]"
    using T ex by (simp add: w1c f del: create_pages.simps)
  have o: "out (snd (create_pages ex_title_column ex_session [ex_p1, ex_p2] (ex_faulty 0)))
       = [''Page One failed to save'']"
    using T ex by (simp add: w1c w1o f del: create_pages.simps)
  have p: "pages (snd (create_pages ex_title_column ex_session [ex_p1, ex_p2] (ex_faulty 0)))
       = [(''Page Two'', proposal_page_body ex_session ex_p2)]"
    using T ex by (simp add: w1c w1p f del: create_pages.simps)
  have f1: "faults (ex_faulty 0) 0" by (simp add: f)
  show ?thesis using c1 c2 h3 f1 r c o p by simp
qed

subsection \<open>C8: attachments fail fast\<close>

text \<open>
  Claim C8: outside data-only mode, let the attachments of \<open>pre\<close> all go through: each
  has its file, and the fault schedule spares each upload (the upload of the \<open>k\<close>-th is the
  call number \<open>2 * k + 1\<close> of the run).  Then \<open>upload_attachments\<close> on \<open>pre\<close> returns
  normally, having issued for each attachment in list order the opening of its file and
  then its upload, two calls apiece, and printed one line apiece.  If the next attachment
  \<open>a\<close> cannot be read, the call on \<open>pre @ a # post\<close> ends with the file error right after
  the failed open; if \<open>a\<close> can be read but the fault schedule strikes its upload, the call
  ends with the transport error right after the failed upload.  Either way the error reaches
  the caller and no call is issued for any attachment of \<open>post\<close>.
\<close>

theorem upload_attachments_fail_fast:
  assumes "\<not> csv_only s"
    and "\<forall>k<length pre. files w (att_path (pre ! k)) \<noteq> None
           \<and> \<not> faults w (length (calls w) + 2 * k + 1)"
  shows "fst (upload_attachments s pre w) = Inr ()
       \<and> issued w (snd (upload_attachments s pre w)) = concat (map (attachment_calls s w) pre)
       \<and> length (issued w (snd (upload_attachments s pre w))) = 2 * length pre
       \<and> out (snd (upload_attachments s pre w))
           = out w @ map (\<lambda>b. ''Uploading '' @ att_file b) pre
       \<and> (files w (att_path a) = None \<longrightarrow>
            fst (upload_attachments s (pre @ a # post) w) = Inl FileError
            \<and> issued w (snd (upload_attachments s (pre @ a # post) w))
                = concat (map (attachment_calls s w) pre) @ [FileOpen (att_path a)])
       \<and> (files w (att_path a) = Some bytes \<and> faults w (length (calls w) + 2 * length pre + 1) \<longrightarrow>
            fst (upload_attachments s (pre @ a # post) w) = Inl TransportError
            \<and> issued w (snd (upload_attachments s (pre @ a # post) w))
                = concat (map (attachment_calls s w) pre)
                  @ [FileOpen (att_path a), attachment_call s a bytes])"
proof -
  let ?w1 = "snd (upload_each s pre w)"
  have eq: "\<And>xs. upload_attachments s xs w = upload_each s xs w"
    using assms(1) by (simp add: upload_attachments_def)
  note P = upload_each_sent[OF assms(2), of s]
  have ok: "fst (upload_each s pre w) = Inr ()" using P by blast
  have c1: "calls ?w1 = calls w @ concat (map (attachment_calls s w) pre)" using P by blast
  have l1: "length (calls ?w1) = length (calls w) + 2 * length pre" using P by blast
  have fi1: "files ?w1 = files w" using P by blast
  have fa1: "faults ?w1 = faults w" using P by blast
  have o1: "out ?w1 = out w @ map (\<lambda>b. ''Uploading '' @ att_file b) pre" using P by blast
  have i1: "issued w ?w1 = concat (map (attachment_calls s w) pre)" using c1 by simp
  have len: "length (issued w ?w1) = 2 * length pre" using l1 c1 by (simp add: issued_def)
  have run: "upload_each s (pre @ a # post) w = upload_each s (a # post) ?w1"
    using upload_each_append[OF ok] .
  have A: "files w (att_path a) = None \<longrightarrow>
            fst (upload_each s (pre @ a # post) w) = Inl FileError
            \<and> issued w (snd (upload_each s (pre @ a # post) w))
                = concat (map (attachment_calls s w) pre) @ [FileOpen (att_path a)]"
  proof
    assume n: "files w (att_path a) = None"
    then have n1: "files ?w1 (att_path a) = None" by (simp add: fi1)
    note U = upload_attachment_unreadable[OF n1, of s]
    obtain w2 where s2: "upload_attachment s a ?w1 = (Inl FileError, w2)"
      using U(1) by (cases "upload_attachment s a ?w1") auto
    have "calls w2 = calls w @ concat (map (attachment_calls s w) pre) @ [FileOpen (att_path a)]"
      using U(2) s2 c1 by simp
    then show "fst (upload_each s (pre @ a # post) w) = Inl FileError
            \<and> issued w (snd (upload_each s (pre @ a # post) w))
                = concat (map (attachment_calls s w) pre) @ [FileOpen (att_path a)]"
      unfolding run using s2 by simp
  qed
  have B: "files w (att_path a) = Some bytes \<and> faults w (length (calls w) + 2 * length pre + 1) \<longrightarrow>
            fst (upload_each s (pre @ a # post) w) = Inl TransportError
            \<and> issued w (snd (upload_each s (pre @ a # post) w))
                = concat (map (attachment_calls s w) pre)
                  @ [FileOpen (att_path a), attachment_call s a bytes]"
  proof
    assume h: "files w (att_path a) = Some bytes \<and> faults w (length (calls w) + 2 * length pre + 1)"
    then have b1: "files ?w1 (att_path a) = Some bytes" by (simp add: fi1)
    have f1: "faults ?w1 (Suc (length (calls ?w1)))" using h by (simp add: fa1 l1)
    note U = upload_attachment_unsent[OF b1 f1, of s]
    obtain w2 where s2: "upload_attachment s a ?w1 = (Inl TransportError, w2)"
      using U(1) by (cases "upload_attachment s a ?w1") auto
    have "calls w2 = calls w @ concat (map (attachment_calls s w) pre)
        @ [FileOpen (att_path a), attachment_call s a bytes]"
      using U(2) s2 c1 by simp
    then show "fst (upload_each s (pre @ a # post) w) = Inl TransportError
            \<and> issued w (snd (upload_each s (pre @ a # post) w))
                = concat (map (attachment_calls s w) pre)
                  @ [FileOpen (att_path a), attachment_call s a bytes]"
      unfolding run using s2 by simp
  qed
  show ?thesis unfolding eq using ok i1 len o1 A B by blast
qed

text \<open>
  Claim C8, witness: three attachments.  In the first run the upload of the second fails in
  transport; in the second run the second has no file.  Both runs end with the error and
  never touch the third.
\<close>

theorem upload_attachments_fail_fast_witness:
  "\<not> csv_only ex_session
   \<and> files (ex_faulty 3) (att_path ex_attachment) = Some ''PDF''
   \<and> \<not> faults (ex_faulty 3) 1 \<and> faults (ex_faulty 3) 3
   \<and> fst (upload_attachments ex_session [ex_attachment, ex_attachment, ex_attachment] (ex_faulty 3))
       = Inl TransportError
   \<and> issued (ex_faulty 3)
        (snd (upload_attachments ex_session [ex_attachment, ex_attachment, ex_attachment]
           (ex_faulty 3)))
       = [FileOpen ''/tmp/doc.pdf'', attachment_call ex_session ex_attachment ''PDF'',
          FileOpen ''/tmp/doc.pdf'', attachment_call ex_session ex_attachment ''PDF'']
   \<and> files ex_world (att_path ex_lost_attachment) = None
   \<and> fst (upload_attachments ex_session [ex_attachment, ex_lost_attachment, ex_attachment] ex_world)
       = Inl FileError
   \<and> issued ex_world
        (snd (upload_attachments ex_session [ex_attachment, ex_lost_attachment, ex_attachment]
           ex_world))
       = [FileOpen ''/tmp/doc.pdf'', attachment_call ex_session ex_attachment ''PDF'',
          FileOpen ''/tmp/gone.pdf'']"
proof -
  have h: "\<not> csv_only ex_session" by (simp add: ex_session_def)
  have fi: "files (ex_faulty 3) (att_path ex_attachment) = Some ''PDF''"
    by (simp add: ex_faulty_def ex_world_def ex_attachment_def)
  have fw: "files ex_world (att_path ex_attachment) = Some ''PDF''"
    by (simp add: ex_world_def ex_attachment_def)
  have lost: "files ex_world (att_path ex_lost_attachment) = None"
    by (simp add: ex_world_def ex_lost_attachment_def)
  have fa: "faults (ex_faulty 3) = (\<lambda>k. k = 3)" by (simp add: ex_faulty_def ex_world_def)
  have fn: "faults ex_world = (\<lambda>k. False)" by (simp add: ex_world_def)
  have c3: "calls (ex_faulty 3) = []" by (simp add: ex_faulty_def ex_world_def)
  have c0: "calls ex_world = []" by (simp add: ex_world_def)
  have p3: "\<forall>k<length [ex_attachment]. files (ex_faulty 3) (att_path ([ex_attachment] ! k)) \<noteq> None
      \<and> \<not> faults (ex_faulty 3) (length (calls (ex_faulty 3)) + 2 * k + 1)"
    by (simp add: fi fa c3)
  have p0: "\<forall>k<length [ex_attachment]. files ex_world (att_path ([ex_attachment] ! k)) \<noteq> None
      \<and> \<not> faults ex_world (length (calls ex_world) + 2 * k + 1)"
    by (simp add: fw fn c0)
  have ac3: "attachment_calls ex_session (ex_faulty 3) ex_attachment
      = [FileOpen ''/tmp/doc.pdf'', attachment_call ex_session ex_attachment ''PDF'']"
    by (simp add: attachment_calls_def fi) (simp add: ex_attachment_def)
  have ac0: "attachment_calls ex_session ex_world ex_attachment
      = [FileOpen ''/tmp/doc.pdf'', attachment_call ex_session ex_attachment ''PDF'']"
    by (simp add: attachment_calls_def fw) (simp add: ex_attachment_def)
  have lp: "att_path ex_lost_attachment = ''/tmp/gone.pdf''" by (simp add: ex_lost_attachment_def)
  have ap: "att_path ex_attachment = ''/tmp/doc.pdf''" by (simp add: ex_attachment_def)
  note T3 = upload_attachments_fail_fast [OF h p3, where a = ex_attachment
      and post = "[ex_attachment]" and bytes = "''PDF''"]
  note T0 = upload_attachments_fail_fast [OF h p0, where a = ex_lost_attachment
      and post = "[ex_attachment]"]
  have f3: "faults (ex_faulty 3) (length (calls (ex_faulty 3)) + 2 * length [ex_attachment] + 1)"
    by (simp add: fa c3)
  have r3: "fst (upload_attachments ex_session [ex_attachment, ex_attachment, ex_attachment] (ex_faulty 3))
       = Inl TransportError"
    using T3 fi f3 by simp
  have i3: "issued (ex_faulty 3)
        (snd (upload_attachments ex_session [ex_attachment, ex_attachment, ex_attachment]
           (ex_faulty 3)))
       = [FileOpen ''/tmp/doc.pdf'', attachment_call ex_session ex_attachment ''PDF'',
          FileOpen ''/tmp/doc.pdf'', attachment_call ex_session ex_attachment ''PDF'']"
    using T3 fi f3 by (simp add: ac3 ap)
  have r0: "fst (upload_attachments ex_session [ex_attachment, ex_lost_attachment, ex_attachment] ex_world)
       = Inl FileError"
    using T0 lost by simp
  have i0: "issued ex_world
        (snd (upload_attachments ex_session [ex_attachment, ex_lost_attachment, ex_attachment]
           ex_world))
       = [FileOpen ''/tmp/doc.pdf'', attachment_call ex_session ex_attachment ''PDF'',
          FileOpen ''/tmp/gone.pdf'']"
    using T0 lost by (simp add: ac0 lp)
  have n1: "\<not> faults (ex_faulty 3) 1" by (simp add: fa)
  have y3: "faults (ex_faulty 3) 3" by (simp add: fa)
  show ?thesis using h fi n1 y3 r3 i3 lost r0 i0 by blast
qed

subsection \<open>C9: a failing TOC page stops the publish\<close>

text \<open>
  Claim C9: let the sheet upload and the TOCs before \<open>t\<close> go through, and let the upload
  of \<open>t\<close>'s data go through as well.  If then the fetch of \<open>t\<close>'s display page fails, or
  the page is missing and the save fails, \<open>upload_toc\<close> raises the transport error right
  after the failing call, and \<open>upload_sheet\<close> ends with that very result: no further TOC,
  no record page, no audit.  \<open>create_pages\<close> on a titled record, by contrast, returns
  normally in every world.
\<close>

theorem toc_page_failure_aborts_publish:
  assumes "tocs cmp = pre @ t # post"
    and "\<not> faults w (length (calls w))"
    and "upload_tocs s pre (w\<lparr>calls := calls w @ [sheet_call s cmp]\<rparr>) = (Inr (), w2)"
    and "\<not> faults w2 (length (calls w2))"
    and "faults w2 (Suc (length (calls w2)))
         \<or> (\<not> page_exists (toc_name t) w2 \<and> faults w2 (Suc (Suc (length (calls w2)))))"
    and "cell p title_column = Some page_title"
  shows "fst (upload_toc s t w2) = Inl TransportError
       \<and> issued w2 (snd (upload_toc s t w2)) = toc_call s t # PageGet (toc_name t) #
           (if faults w2 (Suc (length (calls w2))) then []
            else [PageSave (toc_name t) (toc_page_body s t)])
       \<and> upload_sheet title_column s cmp w = upload_toc s t w2
       \<and> fst (create_pages title_column s [p] w') = Inr ()"
proof -
  have f: "fst (upload_toc s t w2) = Inl TransportError"
    using upload_toc_page_fault(1)[OF assms(4,5)] .
  have i: "issued w2 (snd (upload_toc s t w2)) = toc_call s t # PageGet (toc_name t) #
           (if faults w2 (Suc (length (calls w2))) then []
            else [PageSave (toc_name t) (toc_page_body s t)])"
    using upload_toc_page_fault(2)[OF assms(4,5), of s] by (rule issued_append)
  have ts: "upload_tocs s (tocs cmp) (w\<lparr>calls := calls w @ [sheet_call s cmp]\<rparr>) = upload_toc s t w2"
    using upload_tocs_append_fail[OF assms(3) f] assms(1) by simp
  obtain w3 where w3: "upload_toc s t w2 = (Inl TransportError, w3)"
    using f by (cases "upload_toc s t w2") auto
  have u: "upload_sheet title_column s cmp w = upload_toc s t w2"
    using upload_sheet_unfold[OF assms(2), of title_column s cmp] ts w3 by simp
  have c: "fst (create_pages title_column s [p] w') = Inr ()"
    using assms(6) by simp
  show ?thesis using f i u c by blast
qed

text \<open>
  Claim C9, witness: the third call of the run (the fetch of the page "Regions") fails.
\<close>

theorem toc_page_failure_aborts_publish_witness:
  "tocs ex_comp = [] @ ex_toc # []
   \<and> \<not> faults (ex_faulty 2) (length (calls (ex_faulty 2)))
   \<and> upload_tocs ex_session [] ((ex_faulty 2)\<lparr>calls := calls (ex_faulty 2) @ [sheet_call ex_session ex_comp]\<rparr>)
       = (Inr (), (ex_faulty 2)\<lparr>calls := [sheet_call ex_session ex_comp]\<rparr>)
   \<and> faults (ex_faulty 2) (Suc (length [sheet_call ex_session ex_comp]))
   \<and> cell ex_p1 ex_title_column = Some ''Page One''
   \<and> fst (upload_sheet ex_title_column ex_session ex_comp (ex_faulty 2)) = Inl TransportError
   \<and> calls (snd (upload_sheet ex_title_column ex_session ex_comp (ex_faulty 2)))
       = [sheet_call ex_session ex_comp, toc_call ex_session ex_toc, PageGet ''Regions'']
   \<and> fst (create_pages ex_title_column ex_session [ex_p1] (ex_faulty 0)) = Inr ()"
proof -
  let ?w2 = "(ex_faulty 2)\<lparr>calls := [sheet_call ex_session ex_comp]\<rparr>"
  have h1: "tocs ex_comp = [] @ ex_toc # []" by (simp add: ex_comp_def)
  have h2: "\<not> faults (ex_faulty 2) (length (calls (ex_faulty 2)))"
    by (simp add: ex_faulty_def ex_world_def)
  have h3: "upload_tocs ex_session [] ((ex_faulty 2)\<lparr>calls := calls (ex_faulty 2) @ [sheet_call ex_session ex_comp]\<rparr>)
       = (Inr (), ?w2)"
    by (simp add: ex_faulty_def ex_world_def)
  have h4: "\<not> faults ?w2 (length (calls ?w2))"
    by (simp add: ex_faulty_def ex_world_def)
  have h5: "faults ?w2 (Suc (length (calls ?w2)))
         \<or> (\<not> page_exists (toc_name ex_toc) ?w2 \<and> faults ?w2 (Suc (Suc (length (calls ?w2)))))"
    by (simp add: ex_faulty_def ex_world_def)
  have h6: "cell ex_p1 ex_title_column = Some ''Page One''"
    by (simp add: cell_def ex_p1_def ex_title_column_def)
  note T = toc_page_failure_aborts_publish [OF h1 h2 h3 h4 h5 h6, of "ex_faulty 0"]
  have t3: "upload_sheet ex_title_column ex_session ex_comp (ex_faulty 2)
      = upload_toc ex_session ex_toc ?w2"
    using T by blast
  have r: "fst (upload_sheet ex_title_column ex_session ex_comp (ex_faulty 2)) = Inl TransportError"
    using T t3 by simp
  have i: "issued ?w2 (snd (upload_toc ex_session ex_toc ?w2))
      = [toc_call ex_session ex_toc, PageGet ''Regions'']"
    using T by (simp add: ex_faulty_def ex_world_def ex_toc_def)
  have c: "calls (snd (upload_toc ex_session ex_toc ?w2))
      = calls ?w2 @ issued ?w2 (snd (upload_toc ex_session ex_toc ?w2))"
    by (simp add: upload_toc_def prims issued_def)
  have cs: "calls (snd (upload_sheet ex_title_column ex_session ex_comp (ex_faulty 2)))
       = [sheet_call ex_session ex_comp, toc_call ex_session ex_toc, PageGet ''Regions'']"
    unfolding t3 c i by simp
  have f2: "faults (ex_faulty 2) (Suc (length [sheet_call ex_session ex_comp]))"
    by (simp add: ex_faulty_def ex_world_def)
  have cp: "fst (create_pages ex_title_column ex_session [ex_p1] (ex_faulty 0)) = Inr ()"
    using T by blast
  show ?thesis
    using h1 h2 h3 f2 h6 r cs cp by blast
qed

subsection \<open>C10: a blank title\<close>

text \<open>
  Claim C10: a record whose title cell is the empty string raises nothing in
  \<open>create_pages\<close> and is passed over without any effect: the loop goes on as if the record
  were not there, and \<open>create_page\<close> with an empty title returns the world untouched (no
  fetch, no save, no output).
\<close>

theorem blank_title_is_skipped:
  assumes "cell p title_column = Some []"
  shows "create_pages title_column s (p # ps) w = create_pages title_column s ps w
       \<and> create_pages title_column s [p] w = (Inr (), w)
       \<and> create_page [] body create_if_exists w = w"
  using assms by (simp add: create_page_def)

text \<open>
  Claim C10, witness: a record with a blank title in front of a titled one.
\<close>

theorem blank_title_is_skipped_witness:
  "cell ex_blank ex_title_column = Some []
   \<and> create_pages ex_title_column ex_session [ex_blank, ex_p1] ex_world
       = create_pages ex_title_column ex_session [ex_p1] ex_world
   \<and> create_pages ex_title_column ex_session [ex_blank] ex_world = (Inr (), ex_world)
   \<and> create_page [] ''body'' True ex_world = ex_world"
proof -
  have h: "cell ex_blank ex_title_column = Some []"
    by (simp add: cell_def ex_blank_def ex_title_column_def)
  show ?thesis
    using h blank_title_is_skipped [OF h, of ex_session "[ex_p1]" ex_world "''body''" True]
    by simp
qed

end
